theory Spec2Isabelle
  imports Main "HOL-Library.Word" "HOL-Library.Finite_Map"
begin

unbundle bit_operations_syntax

section \<open>SignalHandler: signals recorded as bits of three category words\<close>

text \<open>
  Embedding of \<^verbatim>\<open>includes/SignalHandler.hpp\<close> and \<^verbatim>\<open>src/SignalHandler.cpp\<close>.

  A signal number is a C \<^verbatim>\<open>int\<close>, modelled as \<^typ>\<open>int\<close>: the only arithmetic on it is
  \<^verbatim>\<open>signo - 1\<close>, \<^verbatim>\<open>signo - 32\<close> and \<^verbatim>\<open>signo - 64\<close>, each computed on a positive value, so
  nothing can overflow. A category word is a \<^verbatim>\<open>uint32_t\<close>, modelled as \<^typ>\<open>32 word\<close>.

  \<^verbatim>\<open>NSIG\<close> is a macro of the platform's \<^verbatim>\<open>csignal\<close> header and not part of the repository:
  every definition that reads it takes it as the parameter \<open>nsig\<close>. (On Linux with glibc
  it is 65.) In the reserved path \<^verbatim>\<open>1U << (signo - 64)\<close> the shift count stays below 32
  as long as \<open>nsig \<le> 96\<close>; beyond that C++ leaves the shift undefined, and
  \<^const>\<open>push_bit\<close> yields 0.
\<close>

type_synonym uint32_t = "32 word"

definition signal_bitmask :: "int \<Rightarrow> int \<Rightarrow> uint32_t" where
  "signal_bitmask nsig signo =
     (if signo \<le> 0 \<or> signo \<ge> nsig then 0
      else if signo < 32 then push_bit (nat (signo - 1)) 1
      else if signo < 64 then push_bit (nat (signo - 32)) 1
      else push_bit (nat (signo - 64)) 1)"

text \<open>
  \<^verbatim>\<open>struct SignalMask_t\<close>. Its members carry the same names as the enumerators of
  \<^verbatim>\<open>SIG_FLAGS_ENM\<close>; the members get the suffix \<open>_bits\<close> here.
\<close>

record SignalMask_t =
  OS_sigs_bits :: uint32_t
  RT_sigs_bits :: uint32_t
  reserved_bits :: uint32_t

datatype SIG_FLAGS_ENM = OS_sigs | RT_sigs | reserved

text \<open>
  What a \<^verbatim>\<open>struct sigaction\<close> holds: the action (the class's own
  \<^verbatim>\<open>handler_callback\<close>, or any other disposition, numbered), the mask and the flags.
\<close>

datatype sa_function = Handler_callback | Other_action nat

record sigaction =
  sa_sigaction :: sa_function
  sa_mask :: "int set"
  sa_flags :: int

text \<open>
  The process-wide state the class works on: its two static members
  (\<^verbatim>\<open>instance_exists_\<close>, \<^verbatim>\<open>sig_flags_\<close>), the signal mask of the constructing thread,
  the disposition the operating system holds for each signal number, and the
  constructing thread's \<^verbatim>\<open>errno\<close>. (Isabelle reserves
  names that end in an underscore, so the members lose theirs.)
\<close>

record process =
  instance_exists :: bool
  sig_flags :: "SIG_FLAGS_ENM \<Rightarrow> uint32_t"
  blocked_signals :: "int set"
  dispositions :: "int \<Rightarrow> sigaction"
  errno :: int

text \<open>The non-static members of a \<^verbatim>\<open>SignalHandler\<close> object.\<close>

record SignalHandler =
  sigmask :: "int set"
  old_handlers :: "int \<rightharpoonup> sigaction"
  dispatch_thread :: bool

text \<open>
  What the operating system answers, and what the platform headers define: the value of
  \<^verbatim>\<open>SA_SIGINFO\<close>, the error code \<^verbatim>\<open>pthread_sigmask\<close> returns (0 for success), the
  \<^verbatim>\<open>errno\<close> with which \<^verbatim>\<open>sigaction\<close> refuses a signal number (\<open>None\<close> when it accepts
  it), the content of an uninitialised \<^verbatim>\<open>struct sigaction\<close> local, the error code
  with which the constructor of \<^verbatim>\<open>std::jthread\<close> fails to start the dispatcher thread
  (\<open>None\<close> when the thread starts), and the signals that \<^verbatim>\<open>pthread_sigmask\<close> leaves out
  of the mask without reporting an error (\<^verbatim>\<open>SIGKILL\<close> and \<^verbatim>\<open>SIGSTOP\<close>, and the signals the
  C library keeps for itself). Memory allocation is taken to succeed.
\<close>

record os_env =
  SA_SIGINFO :: int
  sigmask_errc :: int
  sigaction_errno :: "int \<Rightarrow> int option"
  uninitialised :: sigaction
  dispatcher_errc :: "int option"
  unblockable :: "int set"

datatype error =
    logic_error
  | invalid_argument_signal int
  | invalid_argument_thread nat
  | system_error int
  | bad_alloc

datatype sigmask_how = SIG_BLOCK | SIG_UNBLOCK

text \<open>
  \<^verbatim>\<open>pthread_sigmask(how, &set, nullptr)\<close>: on failure nothing changes and the error code
  is returned. A request to block a signal that cannot be blocked is ignored for that
  signal.
\<close>

definition pthread_sigmask :: "os_env \<Rightarrow> sigmask_how \<Rightarrow> int set \<Rightarrow> process \<Rightarrow> int \<times> process" where
  "pthread_sigmask env how sigs s =
     (if sigmask_errc env \<noteq> 0 then (sigmask_errc env, s)
      else (0, s\<lparr>blocked_signals :=
                   (case how of
                      SIG_BLOCK \<Rightarrow> blocked_signals s \<union> (sigs - unblockable env)
                    | SIG_UNBLOCK \<Rightarrow> blocked_signals s - sigs)\<rparr>))"

text \<open>
  \<^verbatim>\<open>sigaction(signum, &act, &oldact)\<close>: on success the disposition is replaced and the
  previous one is written to \<^verbatim>\<open>oldact\<close>; on failure (result \<open>-1\<close>) \<^verbatim>\<open>errno\<close> is set and
  nothing else is written, so the caller's \<^verbatim>\<open>oldact\<close> keeps what it held.
\<close>

definition sys_sigaction ::
  "os_env \<Rightarrow> int \<Rightarrow> sigaction \<Rightarrow> sigaction \<Rightarrow> process \<Rightarrow> int \<times> sigaction \<times> process" where
  "sys_sigaction env signum act oldact s =
     (case sigaction_errno env signum of
        Some e \<Rightarrow> (- 1, oldact, s\<lparr>errno := e\<rparr>)
      | None \<Rightarrow> (0, dispositions s signum, s\<lparr>dispositions := (dispositions s)(signum := act)\<rparr>))"

subsection \<open>Queries\<close>

definition test_signal :: "int \<Rightarrow> int \<Rightarrow> process \<Rightarrow> bool" where
  "test_signal nsig sig s =
     (if sig \<le> 0 \<or> sig \<ge> nsig then False
      else
        let flagenm = (if sig \<ge> 32 \<and> sig < 64 then RT_sigs
                       else if sig \<ge> 64 then reserved
                       else OS_sigs)
        in (sig_flags s flagenm AND signal_bitmask nsig sig) \<noteq> 0)"

definition test_all_signals :: "process \<Rightarrow> bool \<times> SignalMask_t" where
  "test_all_signals s =
     (let sigbitmask = \<lparr>OS_sigs_bits = sig_flags s OS_sigs,
                        RT_sigs_bits = sig_flags s RT_sigs,
                        reserved_bits = sig_flags s reserved\<rparr>
      in (OS_sigs_bits sigbitmask \<noteq> 0 \<or> RT_sigs_bits sigbitmask \<noteq> 0 \<or>
          reserved_bits sigbitmask \<noteq> 0,
          sigbitmask))"

text \<open>
  \<^verbatim>\<open>pop_signal\<close> returns the result of \<^verbatim>\<open>fetch_and\<close> converted to \<^verbatim>\<open>bool\<close>:
  \<^verbatim>\<open>fetch_and\<close> yields the whole previous word, and the conversion asks whether it is
  non-zero.
\<close>

definition pop_signal :: "int \<Rightarrow> int \<Rightarrow> process \<Rightarrow> bool \<times> process" where
  "pop_signal nsig sig s =
     (if sig \<le> 0 \<or> sig \<ge> nsig then (False, s)
      else
        let flagenm = (if sig \<ge> 32 \<and> sig < 64 then RT_sigs
                       else if sig \<ge> 64 then reserved
                       else OS_sigs);
            previous = sig_flags s flagenm
        in (previous \<noteq> 0,
            s\<lparr>sig_flags := (sig_flags s)(flagenm := previous AND NOT (signal_bitmask nsig sig))\<rparr>))"

definition clear_sig_flags :: "process \<Rightarrow> process" where
  "clear_sig_flags s =
     s\<lparr>sig_flags := (sig_flags s)(OS_sigs := 0, RT_sigs := 0, reserved := 0)\<rparr>"

definition pop_all_signals :: "process \<Rightarrow> bool \<times> SignalMask_t \<times> process" where
  "pop_all_signals s =
     (let (ret, sigbitmask) = test_all_signals s
      in (ret, sigbitmask, clear_sig_flags s))"

subsection \<open>The handler the operating system calls on delivery\<close>

definition handler_callback :: "int \<Rightarrow> int \<Rightarrow> process \<Rightarrow> process" where
  "handler_callback nsig sig s =
     (if sig < 32 then
        s\<lparr>sig_flags := (sig_flags s)(OS_sigs := sig_flags s OS_sigs OR signal_bitmask nsig sig)\<rparr>
      else if sig < 64 then
        s\<lparr>sig_flags := (sig_flags s)(RT_sigs := sig_flags s RT_sigs OR signal_bitmask nsig sig)\<rparr>
      else
        s\<lparr>sig_flags := (sig_flags s)(reserved := sig_flags s reserved OR signal_bitmask nsig sig)\<rparr>)"

text \<open>A sequence of deliveries, one call of the handler for each.\<close>

fun deliveries :: "int \<Rightarrow> int list \<Rightarrow> process \<Rightarrow> process" where
  "deliveries nsig [] s = s"
| "deliveries nsig (sig # sigs) s = deliveries nsig sigs (handler_callback nsig sig s)"

subsection \<open>Construction and destruction\<close>

text \<open>
  \<^verbatim>\<open>restore_actions\<close> calls \<^verbatim>\<open>sigaction(signum, &old, nullptr)\<close> for every entry of
  \<^verbatim>\<open>old_handlers_\<close> and ignores the results, then unblocks the mask. The keys of the table
  are distinct, so the order in which the table is walked does not matter and the loop
  is written pointwise: a signal number with a saved entry gets it back unless the
  operating system refuses the call. A refused call would also set \<^verbatim>\<open>errno\<close>; the class
  reads \<^verbatim>\<open>errno\<close> only after the restore that follows a failed installation under the
  strict policy, where every entry of the table belongs to a signal the operating
  system has accepted, so that restore leaves \<^verbatim>\<open>errno\<close> as the failed call set it.
\<close>

definition restore_actions :: "os_env \<Rightarrow> SignalHandler \<Rightarrow> process \<Rightarrow> process" where
  "restore_actions env this s =
     (let s1 = s\<lparr>dispositions :=
                   (\<lambda>signum. case old_handlers this signum of
                                None \<Rightarrow> dispositions s signum
                              | Some handler \<Rightarrow>
                                  (case sigaction_errno env signum of
                                     None \<Rightarrow> handler
                                   | Some e \<Rightarrow> dispositions s signum))\<rparr>
      in snd (pthread_sigmask env SIG_UNBLOCK (sigmask this) s1))"

text \<open>
  The loop that installs the handlers, for the constructor that takes a list of signals
  and one \<^verbatim>\<open>flags\<close> value. The result is the error thrown, or the object with its table
  of old handlers filled, next to the process state reached.
\<close>

fun install_handlers ::
  "os_env \<Rightarrow> int \<Rightarrow> bool \<Rightarrow> int list \<Rightarrow> SignalHandler \<Rightarrow> process
     \<Rightarrow> (error + SignalHandler) \<times> process" where
  "install_handlers env flags throw_sig_error [] this s = (Inr this, s)"
| "install_handlers env flags throw_sig_error (signal # signal_list) this s =
     (let sa_struct = \<lparr>sa_sigaction = Handler_callback, sa_mask = {},
                       sa_flags = flags OR SA_SIGINFO env\<rparr>;
          (rc, old_sa_struct, s1) = sys_sigaction env signal sa_struct (uninitialised env) s
      in if rc = - 1 \<and> throw_sig_error then
           (let s2 = (restore_actions env this s1)\<lparr>instance_exists := False\<rparr>
            in (Inl (system_error (errno s2)), s2))
         else
           install_handlers env flags throw_sig_error signal_list
             (this\<lparr>old_handlers := (old_handlers this)(signal \<mapsto> old_sa_struct)\<rparr>) s1)"

text \<open>The same loop for the constructor that takes pairs of a signal and its flags.\<close>

fun install_handlers_pairs ::
  "os_env \<Rightarrow> bool \<Rightarrow> (int \<times> int) list \<Rightarrow> SignalHandler \<Rightarrow> process
     \<Rightarrow> (error + SignalHandler) \<times> process" where
  "install_handlers_pairs env throw_sig_error [] this s = (Inr this, s)"
| "install_handlers_pairs env throw_sig_error ((signal, flags) # initialiser_list) this s =
     (let sa_struct = \<lparr>sa_sigaction = Handler_callback, sa_mask = {},
                       sa_flags = flags OR SA_SIGINFO env\<rparr>;
          (rc, old_sa_struct, s1) = sys_sigaction env signal sa_struct (uninitialised env) s
      in if rc = - 1 \<and> throw_sig_error then
           (let s2 = (restore_actions env this s1)\<lparr>instance_exists := False\<rparr>
            in (Inl (system_error (errno s2)), s2))
         else
           install_handlers_pairs env throw_sig_error initialiser_list
             (this\<lparr>old_handlers := (old_handlers this)(signal \<mapsto> old_sa_struct)\<rparr>) s1)"

text \<open>
  \<^verbatim>\<open>SignalHandler(std::initializer_list<int>, int flags, bool throw_sig_error)\<close>.
  \<^verbatim>\<open>test_and_set\<close> on a flag that is set leaves it set; the first loop throws at the first
  signal outside the range; \<^verbatim>\<open>sigemptyset\<close> and the \<^verbatim>\<open>sigaddset\<close> loop build the set of
  the listed signals. The dispatcher thread is recorded as started; what it does to its
  own signal mask is outside this state. When the thread cannot be started the
  exception of \<^verbatim>\<open>std::jthread\<close> leaves the constructor as it is: nothing catches it, so
  nothing is restored and the flag stays set.
\<close>

definition SignalHandler_ctor ::
  "int \<Rightarrow> os_env \<Rightarrow> int list \<Rightarrow> int \<Rightarrow> bool \<Rightarrow> process \<Rightarrow> (error + SignalHandler) \<times> process" where
  "SignalHandler_ctor nsig env signal_list flags throw_sig_error s =
     (if instance_exists s then (Inl logic_error, s)
      else
        let s1 = s\<lparr>instance_exists := True\<rparr> in
        case find (\<lambda>signal. signal \<le> 0 \<or> signal \<ge> nsig) signal_list of
          Some signal \<Rightarrow> (Inl (invalid_argument_signal signal), s1\<lparr>instance_exists := False\<rparr>)
        | None \<Rightarrow>
            let mask = set signal_list;
                (errc, s2) = pthread_sigmask env SIG_BLOCK mask s1
            in if errc \<noteq> 0 then
                 (Inl (system_error errc),
                  (snd (pthread_sigmask env SIG_UNBLOCK mask s2))\<lparr>instance_exists := False\<rparr>)
               else
                 (case install_handlers env flags throw_sig_error signal_list
                         \<lparr>sigmask = mask, old_handlers = Map.empty, dispatch_thread = False\<rparr> s2 of
                    (Inl e, s3) \<Rightarrow> (Inl e, s3)
                  | (Inr this, s3) \<Rightarrow>
                      (case dispatcher_errc env of
                         Some e \<Rightarrow> (Inl (system_error e), clear_sig_flags s3)
                       | None \<Rightarrow> (Inr (this\<lparr>dispatch_thread := True\<rparr>), clear_sig_flags s3))))"

text \<open>
  \<^verbatim>\<open>SignalHandler(std::initializer_list<std::pair<int, int>>, bool throw_sig_error)\<close>.
\<close>

definition SignalHandler_ctor_pairs ::
  "int \<Rightarrow> os_env \<Rightarrow> (int \<times> int) list \<Rightarrow> bool \<Rightarrow> process \<Rightarrow> (error + SignalHandler) \<times> process" where
  "SignalHandler_ctor_pairs nsig env initialiser_list throw_sig_error s =
     (if instance_exists s then (Inl logic_error, s)
      else
        let s1 = s\<lparr>instance_exists := True\<rparr> in
        case find (\<lambda>(signal, _). signal \<le> 0 \<or> signal \<ge> nsig) initialiser_list of
          Some (signal, _) \<Rightarrow> (Inl (invalid_argument_signal signal), s1\<lparr>instance_exists := False\<rparr>)
        | None \<Rightarrow>
            let mask = set (map fst initialiser_list);
                (errc, s2) = pthread_sigmask env SIG_BLOCK mask s1
            in if errc \<noteq> 0 then
                 (Inl (system_error errc),
                  (snd (pthread_sigmask env SIG_UNBLOCK mask s2))\<lparr>instance_exists := False\<rparr>)
               else
                 (case install_handlers_pairs env throw_sig_error initialiser_list
                         \<lparr>sigmask = mask, old_handlers = Map.empty, dispatch_thread = False\<rparr> s2 of
                    (Inl e, s3) \<Rightarrow> (Inl e, s3)
                  | (Inr this, s3) \<Rightarrow>
                      (case dispatcher_errc env of
                         Some e \<Rightarrow> (Inl (system_error e), clear_sig_flags s3)
                       | None \<Rightarrow> (Inr (this\<lparr>dispatch_thread := True\<rparr>), clear_sig_flags s3))))"

text \<open>
  \<^verbatim>\<open>~SignalHandler()\<close>: restore, stop and join the dispatcher (the object ends here, so
  only the process state is returned), zero the three words, clear the flag.
\<close>

definition SignalHandler_dtor :: "os_env \<Rightarrow> SignalHandler \<Rightarrow> process \<Rightarrow> process" where
  "SignalHandler_dtor env this s =
     (clear_sig_flags (restore_actions env this s))\<lparr>instance_exists := False\<rparr>"

text \<open>
  The life of the class in one process: a trace of constructions (of either form) and
  destructions, each with the answers the operating system gives during it. A
  configuration is the process state with the objects whose constructor has returned
  and whose destructor has not run yet. Destroying takes the object constructed last;
  with no object alive there is nothing to destroy.
\<close>

datatype lifecycle_event =
    Construct os_env "int list" int bool
  | Construct_pairs os_env "(int \<times> int) list" bool
  | Destroy os_env

fun constructed ::
  "(error + SignalHandler) \<times> process \<Rightarrow> SignalHandler list \<Rightarrow> process \<times> SignalHandler list" where
  "constructed (Inl e, s) alive = (s, alive)"
| "constructed (Inr this, s) alive = (s, this # alive)"

fun lifecycle_step ::
  "int \<Rightarrow> lifecycle_event \<Rightarrow> process \<times> SignalHandler list \<Rightarrow> process \<times> SignalHandler list" where
  "lifecycle_step nsig (Construct env signal_list flags throw_sig_error) (s, alive) =
     constructed (SignalHandler_ctor nsig env signal_list flags throw_sig_error s) alive"
| "lifecycle_step nsig (Construct_pairs env initialiser_list throw_sig_error) (s, alive) =
     constructed (SignalHandler_ctor_pairs nsig env initialiser_list throw_sig_error s) alive"
| "lifecycle_step nsig (Destroy env) (s, []) = (s, [])"
| "lifecycle_step nsig (Destroy env) (s, this # alive) = (SignalHandler_dtor env this s, alive)"

fun lifecycle ::
  "int \<Rightarrow> lifecycle_event list \<Rightarrow> process \<times> SignalHandler list \<Rightarrow> process \<times> SignalHandler list" where
  "lifecycle nsig [] c = c"
| "lifecycle nsig (ev # evs) c = lifecycle nsig evs (lifecycle_step nsig ev c)"

section \<open>ThreadManager: a registry of spawned threads\<close>

text \<open>
  Embedding of \<^verbatim>\<open>includes/ThreadManager.hpp\<close>.

  A \<^verbatim>\<open>std::thread::id\<close> is a number. Of a \<^verbatim>\<open>std::jthread\<close> the registry uses two things:
  the stop state of its own stop source, and whether its thread function has returned
  (the last action of the function the registry starts is the \<^verbatim>\<open>fetch_sub\<close> on
  \<^verbatim>\<open>thread_counter_\<close>). The table \<^verbatim>\<open>threads_\<close> is a finite map; its bucket layout, the only
  thing \<^verbatim>\<open>reserve\<close> and \<^verbatim>\<open>capacity\<close> are about, is not part of the state.
  \<^verbatim>\<open>thread_counter_\<close> is a \<^verbatim>\<open>std::atomic<uint32_t>\<close>; \<^verbatim>\<open>threads_.size()\<close> is a \<^verbatim>\<open>size_t\<close>,
  taken as a natural number.
\<close>

type_synonym thread_id = nat

record jthread =
  stop_state :: bool
  returned :: bool

record ThreadManager =
  thread_counter :: uint32_t
  global_stop_source :: bool
  threads :: "(thread_id, jthread) fmap"

definition ThreadManager_init :: ThreadManager where
  "ThreadManager_init = \<lparr>thread_counter = 0, global_stop_source = False, threads = fmempty\<rparr>"

subsection \<open>Status queries\<close>

definition total_threads :: "ThreadManager \<Rightarrow> nat" where
  "total_threads s = fcard (fmdom (threads s))"

definition alive_threads :: "ThreadManager \<Rightarrow> nat" where
  "alive_threads s = unat (thread_counter s)"

definition all_running :: "ThreadManager \<Rightarrow> bool" where
  "all_running s =
     (unat (thread_counter s) \<ge> fcard (fmdom (threads s)) \<and> fcard (fmdom (threads s)) \<noteq> 0)"

definition any_running :: "ThreadManager \<Rightarrow> bool" where
  "any_running s = (thread_counter s > 0)"

subsection \<open>Spawning\<close>

text \<open>
  \<^verbatim>\<open>spawn_thread\<close> has two parts: the \<^verbatim>\<open>fetch_add\<close> on the counter, made before the lock
  is taken, and the body under the lock. What the body does depends on the run-time
  system:
  \<^item> \<open>Thread_started tid\<close>: the \<^verbatim>\<open>std::jthread\<close> is constructed, the new thread has the
    identity \<open>tid\<close>, and \<^verbatim>\<open>threads_[tid] = std::move(thread)\<close> stores it;
  \<^item> \<open>Thread_start_fails e\<close>: the constructor of \<^verbatim>\<open>std::jthread\<close> throws
    \<^verbatim>\<open>std::system_error\<close>; no thread exists, the handler takes the increment back;
  \<^item> \<open>Record_fails tid\<close>: the thread is started, and \<^verbatim>\<open>threads_[tid]\<close> throws (the table
    cannot allocate the entry). Leaving the \<^verbatim>\<open>try\<close> block destroys the local
    \<^verbatim>\<open>std::jthread\<close>, whose destructor requests a stop and joins: when the handler is
    entered the thread function has returned, and its last action was the \<^verbatim>\<open>fetch_sub\<close>
    of line 92. The handler then runs the \<^verbatim>\<open>fetch_sub\<close> of line 99 and rethrows.
\<close>

datatype spawn_outcome =
    Thread_started thread_id
  | Thread_start_fails int
  | Record_fails thread_id

definition spawn_enter :: "ThreadManager \<Rightarrow> ThreadManager" where
  "spawn_enter s = s\<lparr>thread_counter := thread_counter s + 1\<rparr>"

text \<open>
  The end of the function a spawned thread runs: the worker has returned, the counter
  is decremented, the thread function returns. A thread that is not in the table (the
  local one of a \<^verbatim>\<open>spawn_thread\<close> call that has not inserted it) only decrements.
\<close>

definition thread_exit :: "thread_id \<Rightarrow> ThreadManager \<Rightarrow> ThreadManager" where
  "thread_exit tid s =
     s\<lparr>thread_counter := thread_counter s - 1,
       threads := (case fmlookup (threads s) tid of
                     None \<Rightarrow> threads s
                   | Some thread \<Rightarrow> fmupd tid (thread\<lparr>returned := True\<rparr>) (threads s))\<rparr>"

text \<open>
  The two statements of the body that change the registry: the insertion of line 95,
  which stores the thread with no stop requested and with its thread function returned
  or not, as it is at that moment, and the \<^verbatim>\<open>fetch_sub\<close> of the handler, line 99.
\<close>

definition spawn_insert :: "thread_id \<Rightarrow> bool \<Rightarrow> ThreadManager \<Rightarrow> ThreadManager" where
  "spawn_insert tid has_returned s =
     s\<lparr>threads := fmupd tid \<lparr>stop_state = False, returned = has_returned\<rparr> (threads s)\<rparr>"

definition spawn_rollback :: "ThreadManager \<Rightarrow> ThreadManager" where
  "spawn_rollback s = s\<lparr>thread_counter := thread_counter s - 1\<rparr>"

text \<open>
  The body as one step, with no action of another thread between its statements: a
  thread that is inserted is still running at that moment. (The executions below take
  the body apart, so that the new thread can end before it is inserted.)
\<close>

definition spawn_locked :: "spawn_outcome \<Rightarrow> ThreadManager \<Rightarrow> (error + thread_id) \<times> ThreadManager" where
  "spawn_locked outcome s =
     (case outcome of
        Thread_started tid \<Rightarrow> (Inr tid, spawn_insert tid False s)
      | Thread_start_fails e \<Rightarrow> (Inl (system_error e), spawn_rollback s)
      | Record_fails tid \<Rightarrow> (Inl bad_alloc, spawn_rollback (thread_exit tid s)))"

definition spawn_thread :: "spawn_outcome \<Rightarrow> ThreadManager \<Rightarrow> (error + thread_id) \<times> ThreadManager" where
  "spawn_thread outcome s = spawn_locked outcome (spawn_enter s)"

subsection \<open>The other operations\<close>

definition reserve :: "nat \<Rightarrow> ThreadManager \<Rightarrow> ThreadManager" where
  "reserve limit s = s"

text \<open>
  \<^verbatim>\<open>std::stop_source::request_stop\<close> and \<^verbatim>\<open>std::jthread::request_stop\<close> return whether this
  call made the request, that is, whether no stop had been requested before.
\<close>

definition request_stop_all :: "ThreadManager \<Rightarrow> bool \<times> ThreadManager" where
  "request_stop_all s = (\<not> global_stop_source s, s\<lparr>global_stop_source := True\<rparr>)"

definition stop_requested_all :: "ThreadManager \<Rightarrow> bool" where
  "stop_requested_all s = global_stop_source s"

definition request_stop :: "thread_id \<Rightarrow> ThreadManager \<Rightarrow> (error + bool) \<times> ThreadManager" where
  "request_stop tid s =
     (case fmlookup (threads s) tid of
        None \<Rightarrow> (Inl (invalid_argument_thread tid), s)
      | Some thread \<Rightarrow>
          (Inr (\<not> stop_state thread),
           s\<lparr>threads := fmupd tid (thread\<lparr>stop_state := True\<rparr>) (threads s)\<rparr>))"

definition stop_requested :: "thread_id \<Rightarrow> ThreadManager \<Rightarrow> (error + bool) \<times> ThreadManager" where
  "stop_requested tid s =
     (case fmlookup (threads s) tid of
        None \<Rightarrow> (Inl (invalid_argument_thread tid), s)
      | Some thread \<Rightarrow> (Inr (stop_state thread), s))"

text \<open>
  \<^verbatim>\<open>join\<close> waits for every thread of the table and then clears the table. The waiting is
  not an effect on the state: \<^verbatim>\<open>join\<close> returns only when every thread of the table has
  returned, which is the condition under which the event \<open>Join\<close> below can happen.
\<close>

definition join :: "ThreadManager \<Rightarrow> ThreadManager" where
  "join s = s\<lparr>threads := fmempty\<rparr>"

definition all_returned :: "ThreadManager \<Rightarrow> bool" where
  "all_returned s =
     fBall (fmdom (threads s))
       (\<lambda>tid. case fmlookup (threads s) tid of None \<Rightarrow> True | Some thread \<Rightarrow> returned thread)"

subsection \<open>Executions\<close>

text \<open>
  An execution of a program that uses one registry from several threads is a sequence
  of events, each one atomic action of the source:
  \<^item> \<open>Spawn_enter\<close>: a \<^verbatim>\<open>spawn_thread\<close> call makes its \<^verbatim>\<open>fetch_add\<close> (line 74);
  \<^item> \<open>Spawn_start tid\<close>: such a call holds the lock and has constructed its
    \<^verbatim>\<open>std::jthread\<close>; the new thread, of identity \<open>tid\<close>, runs from now on (line 80);
  \<^item> \<open>Spawn_start_fails e\<close>: such a call holds the lock, the constructor of
    \<^verbatim>\<open>std::jthread\<close> throws, the handler makes its \<^verbatim>\<open>fetch_sub\<close> (line 99);
  \<^item> \<open>Spawn_insert\<close>: the call that holds the lock stores its thread in the table
    (line 95) and returns;
  \<^item> \<open>Spawn_record_fails\<close>: the insertion throws, the destructor of the local
    \<^verbatim>\<open>std::jthread\<close> has joined the thread, the handler makes its \<^verbatim>\<open>fetch_sub\<close> (line 99);
  \<^item> \<open>Thread_exit tid\<close>: the thread function of \<open>tid\<close> ends with its \<^verbatim>\<open>fetch_sub\<close>
    (line 92), whether the thread is in the table already or still the local one of
    the call that started it;
  \<^item> \<open>Join\<close>, \<open>Request_stop tid\<close>: the calls that take the lock;
    \<open>Request_stop_all\<close>, \<open>Reserve limit\<close>: the calls that do not.

  A configuration is the registry, the number of \<^verbatim>\<open>spawn_thread\<close> calls that have made
  their \<^verbatim>\<open>fetch_add\<close> and not yet constructed their thread, and the local thread of the
  call that holds the lock between the construction and the insertion, with whether
  its thread function has returned (\<open>None\<close> when no call is there). An event that
  cannot happen in a configuration yields \<open>None\<close>: a construction with no call
  waiting, or while another call is between construction and insertion (it holds the
  lock), or with an identity that a thread of the table holds (the operating system
  gives a new thread an identity that no unjoined thread has); an insertion with no
  local thread; a failed insertion whose local thread has not returned (the destructor
  is still joining); the end of a thread that is not running; a \<^verbatim>\<open>join\<close> that returns
  while a thread of the table runs; a locked call while the lock is held.
\<close>

datatype event =
    Spawn_enter
  | Spawn_start thread_id
  | Spawn_start_fails int
  | Spawn_insert
  | Spawn_record_fails
  | Thread_exit thread_id
  | Join
  | Request_stop thread_id
  | Request_stop_all
  | Reserve nat

type_synonym config = "ThreadManager \<times> nat \<times> (thread_id \<times> bool) option"

fun step :: "event \<Rightarrow> config \<Rightarrow> config option" where
  "step Spawn_enter (s, n, l) = Some (spawn_enter s, Suc n, l)"
| "step (Spawn_start tid) (s, n, l) =
     (if n = 0 \<or> l \<noteq> None \<or> tid |\<in>| fmdom (threads s) then None
      else Some (s, n - 1, Some (tid, False)))"
| "step (Spawn_start_fails e) (s, n, l) =
     (if n = 0 \<or> l \<noteq> None then None else Some (spawn_rollback s, n - 1, None))"
| "step Spawn_insert (s, n, l) =
     (case l of
        None \<Rightarrow> None
      | Some (tid, has_returned) \<Rightarrow> Some (spawn_insert tid has_returned s, n, None))"
| "step Spawn_record_fails (s, n, l) =
     (case l of
        None \<Rightarrow> None
      | Some (tid, has_returned) \<Rightarrow>
          if has_returned then Some (spawn_rollback s, n, None) else None)"
| "step (Thread_exit tid) (s, n, l) =
     (if l = Some (tid, False) then Some (thread_exit tid s, n, Some (tid, True))
      else
        case fmlookup (threads s) tid of
          None \<Rightarrow> None
        | Some thread \<Rightarrow> if returned thread then None else Some (thread_exit tid s, n, l))"
| "step Join (s, n, l) = (if l = None \<and> all_returned s then Some (join s, n, l) else None)"
| "step (Request_stop tid) (s, n, l) =
     (if l = None then Some (snd (request_stop tid s), n, l) else None)"
| "step Request_stop_all (s, n, l) = Some (snd (request_stop_all s), n, l)"
| "step (Reserve limit) (s, n, l) = Some (reserve limit s, n, l)"

fun run :: "event list \<Rightarrow> config \<Rightarrow> config option" where
  "run [] c = Some c"
| "run (ev # evs) c = (case step ev c of None \<Rightarrow> None | Some c' \<Rightarrow> run evs c')"

text \<open>The executions in which no \<^verbatim>\<open>spawn_thread\<close> fails after it has started its thread.\<close>

fun records_fail :: "event \<Rightarrow> bool" where
  "records_fail Spawn_record_fails = True"
| "records_fail ev = False"

text \<open>
  The threads of the table whose thread function has not returned; what the local
  thread adds to the running threads; and the relation between the counter and the
  rest of a configuration that an execution keeps: the counter is the number of
  running threads, in the table or local, plus the number of waiting \<^verbatim>\<open>spawn_thread\<close>
  calls, as a \<^verbatim>\<open>uint32_t\<close>, and the identity of the local thread is not in the table.
\<close>

definition running :: "ThreadManager \<Rightarrow> thread_id set" where
  "running s =
     {tid. case fmlookup (threads s) tid of None \<Rightarrow> False | Some thread \<Rightarrow> \<not> returned thread}"

fun local_running :: "(thread_id \<times> bool) option \<Rightarrow> nat" where
  "local_running None = 0"
| "local_running (Some (tid, has_returned)) = (if has_returned then 0 else 1)"

fun local_fresh :: "(thread_id \<times> bool) option \<Rightarrow> ThreadManager \<Rightarrow> bool" where
  "local_fresh None s = True"
| "local_fresh (Some (tid, has_returned)) s = (tid |\<notin>| fmdom (threads s))"

fun counted :: "config \<Rightarrow> bool" where
  "counted (s, n, l) =
     (thread_counter s = of_nat (card (running s) + n + local_running l) \<and> local_fresh l s)"

section \<open>Concrete inputs and the specification's vocabulary\<close>

text \<open>
  A process in which no signal has been recorded and no object of the class lives, and
  an operating system in the manner of Linux with glibc: \<^verbatim>\<open>SA_SIGINFO\<close> is 4,
  \<^verbatim>\<open>pthread_sigmask\<close> succeeds, \<^verbatim>\<open>sigaction\<close> refuses \<^verbatim>\<open>SIGKILL\<close> (9), \<^verbatim>\<open>SIGSTOP\<close> (19) and the
  two signals the C library keeps for itself (32, 33) with \<^verbatim>\<open>EINVAL\<close> (22), and the same
  four signals are never blocked.
\<close>

definition process_start :: process where
  "process_start =
     \<lparr>instance_exists = False, sig_flags = (\<lambda>_. 0), blocked_signals = {},
      dispositions = (\<lambda>_. \<lparr>sa_sigaction = Other_action 0, sa_mask = {}, sa_flags = 0\<rparr>),
      errno = 0\<rparr>"

definition linux_env :: os_env where
  "linux_env =
     \<lparr>SA_SIGINFO = 4, sigmask_errc = 0,
      sigaction_errno = (\<lambda>signum. if signum \<in> {9, 19, 32, 33} then Some 22 else None),
      uninitialised = \<lparr>sa_sigaction = Other_action 7, sa_mask = {}, sa_flags = 0\<rparr>,
      dispatcher_errc = None,
      unblockable = {9, 19, 32, 33}\<rparr>"

text \<open>The union of a list of bit masks, as the specification speaks of it.\<close>

fun union_bits :: "uint32_t list \<Rightarrow> uint32_t" where
  "union_bits [] = 0"
| "union_bits (w # ws) = w OR union_bits ws"

text \<open>The construction of an object for \<^verbatim>\<open>SIGINT\<close> and \<^verbatim>\<open>SIGTERM\<close> in that process.\<close>

definition first_construction :: "(error + SignalHandler) \<times> process" where
  "first_construction = SignalHandler_ctor 65 linux_env [2, 15] 0 True process_start"

text \<open>
  Executions of a registry and the states they reach: two threads spawned of which the
  first has ended; one thread spawned and a second \<^verbatim>\<open>spawn_thread\<close> call that has made
  its \<^verbatim>\<open>fetch_add\<close> only; one thread spawned and ended; one thread spawned that ended
  before it was inserted.
\<close>

definition mixed_events :: "event list" where
  "mixed_events = [Spawn_enter, Spawn_start 1, Spawn_insert, Spawn_enter, Spawn_start 2,
     Spawn_insert, Thread_exit 1]"

definition mixed_state :: ThreadManager where
  "mixed_state = \<lparr>thread_counter = 1, global_stop_source = False,
     threads = fmupd 2 \<lparr>stop_state = False, returned = False\<rparr>
       (fmupd 1 \<lparr>stop_state = False, returned = True\<rparr> fmempty)\<rparr>"

definition spawning_events :: "event list" where
  "spawning_events = [Spawn_enter, Spawn_start 1, Spawn_insert, Spawn_enter]"

definition spawning_state :: ThreadManager where
  "spawning_state = \<lparr>thread_counter = 2, global_stop_source = False,
     threads = fmupd 1 \<lparr>stop_state = False, returned = False\<rparr> fmempty\<rparr>"

definition exited_events :: "event list" where
  "exited_events = [Spawn_enter, Spawn_start 1, Spawn_insert, Thread_exit 1]"

definition early_exit_events :: "event list" where
  "early_exit_events = [Spawn_enter, Spawn_start 1, Thread_exit 1, Spawn_insert]"

definition exited_state :: ThreadManager where
  "exited_state = \<lparr>thread_counter = 0, global_stop_source = False,
     threads = fmupd 1 \<lparr>stop_state = False, returned = True\<rparr> fmempty\<rparr>"

section \<open>Properties of SignalHandler\<close>

subsection \<open>Bit placement\<close>

lemma signal_bitmask_OS:
  "0 < k \<Longrightarrow> k < 32 \<Longrightarrow> k < nsig \<Longrightarrow> signal_bitmask nsig k = push_bit (nat (k - 1)) 1"
  by (simp add: signal_bitmask_def)

lemma signal_bitmask_RT:
  "32 \<le> k \<Longrightarrow> k < 64 \<Longrightarrow> k < nsig \<Longrightarrow> signal_bitmask nsig k = push_bit (nat (k - 32)) 1"
  by (simp add: signal_bitmask_def)

lemma signal_bitmask_reserved:
  "64 \<le> k \<Longrightarrow> k < nsig \<Longrightarrow> signal_bitmask nsig k = push_bit (nat (k - 64)) 1"
  by (simp add: signal_bitmask_def)

lemma signal_bitmask_illegal: "k \<le> 0 \<or> nsig \<le> k \<Longrightarrow> signal_bitmask nsig k = 0"
  by (auto simp add: signal_bitmask_def)

lemma handler_callback_illegal: "k \<le> 0 \<or> nsig \<le> k \<Longrightarrow> handler_callback nsig k s = s"
  by (auto simp add: handler_callback_def signal_bitmask_def)

text \<open>
  Claim C2. On a platform whose signal-count limit lies above the two named categories
  (\<open>64 \<le> nsig\<close>), the delivery of a signal \<open>k\<close> changes the state in one bit only: for
  \<open>k\<close> in 1..31 it sets bit \<open>k - 1\<close> of the OS word, for \<open>k\<close> in 32..63 it sets bit
  \<open>k - 32\<close> of the RT word, and everything else stays as it was. For \<open>k \<le> 0\<close> and for
  \<open>k\<close> at or above the limit the delivery changes nothing, and \<^verbatim>\<open>test_signal\<close> and
  \<^verbatim>\<open>pop_signal\<close> answer false and leave the state alone. (The signal numbers the claim
  does not name, 64 up to the limit, set bit \<open>k - 64\<close> of the reserved word.)
\<close>

theorem delivery_bit_placement:
  assumes "64 \<le> nsig"
  shows "(1 \<le> k \<and> k \<le> 31 \<longrightarrow>
            handler_callback nsig k s =
              s\<lparr>sig_flags := (sig_flags s)(OS_sigs := set_bit (nat (k - 1)) (sig_flags s OS_sigs))\<rparr>)
       \<and> (32 \<le> k \<and> k \<le> 63 \<longrightarrow>
            handler_callback nsig k s =
              s\<lparr>sig_flags := (sig_flags s)(RT_sigs := set_bit (nat (k - 32)) (sig_flags s RT_sigs))\<rparr>)
       \<and> (k \<le> 0 \<or> nsig \<le> k \<longrightarrow>
            handler_callback nsig k s = s \<and> \<not> test_signal nsig k s \<and> pop_signal nsig k s = (False, s))
       \<and> (64 \<le> k \<and> k < nsig \<longrightarrow>
            handler_callback nsig k s =
              s\<lparr>sig_flags := (sig_flags s)(reserved := set_bit (nat (k - 64)) (sig_flags s reserved))\<rparr>)"
proof (intro conjI impI)
  assume k: "64 \<le> k \<and> k < nsig"
  then have "signal_bitmask nsig k = push_bit (nat (k - 64)) 1"
    by (simp add: signal_bitmask_reserved)
  with k show "handler_callback nsig k s =
              s\<lparr>sig_flags := (sig_flags s)(reserved := set_bit (nat (k - 64)) (sig_flags s reserved))\<rparr>"
    by (simp add: handler_callback_def set_bit_eq_or)
next
  assume k: "1 \<le> k \<and> k \<le> 31"
  with assms have "signal_bitmask nsig k = push_bit (nat (k - 1)) 1"
    by (simp add: signal_bitmask_OS)
  with k show "handler_callback nsig k s =
              s\<lparr>sig_flags := (sig_flags s)(OS_sigs := set_bit (nat (k - 1)) (sig_flags s OS_sigs))\<rparr>"
    by (simp add: handler_callback_def set_bit_eq_or)
next
  assume k: "32 \<le> k \<and> k \<le> 63"
  with assms have "signal_bitmask nsig k = push_bit (nat (k - 32)) 1"
    by (simp add: signal_bitmask_RT)
  with k show "handler_callback nsig k s =
              s\<lparr>sig_flags := (sig_flags s)(RT_sigs := set_bit (nat (k - 32)) (sig_flags s RT_sigs))\<rparr>"
    by (simp add: handler_callback_def set_bit_eq_or)
next
  assume "k \<le> 0 \<or> nsig \<le> k"
  then show "handler_callback nsig k s = s" by (rule handler_callback_illegal)
next
  assume "k \<le> 0 \<or> nsig \<le> k"
  then show "\<not> test_signal nsig k s" by (auto simp add: test_signal_def)
next
  assume "k \<le> 0 \<or> nsig \<le> k"
  then show "pop_signal nsig k s = (False, s)" by (auto simp add: pop_signal_def)
qed

theorem delivery_bit_placement_witness:
  "handler_callback 65 15 process_start =
     process_start\<lparr>sig_flags := (sig_flags process_start)(OS_sigs := 16384)\<rparr>
   \<and> handler_callback 65 34 process_start =
     process_start\<lparr>sig_flags := (sig_flags process_start)(RT_sigs := 4)\<rparr>
   \<and> handler_callback 65 0 process_start = process_start
   \<and> \<not> test_signal 65 70 process_start
   \<and> pop_signal 65 65 process_start = (False, process_start)
   \<and> handler_callback 65 64 process_start =
     process_start\<lparr>sig_flags := (sig_flags process_start)(reserved := 1)\<rparr>"
  using delivery_bit_placement [of 65 15 process_start]
    delivery_bit_placement [of 65 64 process_start]
    delivery_bit_placement [of 65 34 process_start]
    delivery_bit_placement [of 65 0 process_start]
    delivery_bit_placement [of 65 70 process_start]
    delivery_bit_placement [of 65 65 process_start]
  by (simp add: process_start_def set_bit_eq_or)

subsection \<open>Popping one signal\<close>

text \<open>
  What \<^verbatim>\<open>pop_signal\<close> does for a legal signal of the OS category: it clears the bit of the
  signal and of no other, and its answer is whether the category word was non-zero.
\<close>

lemma pop_signal_result:
  "0 < n \<Longrightarrow> n < nsig \<Longrightarrow> n < 32 \<Longrightarrow>
   pop_signal nsig n s =
     (sig_flags s OS_sigs \<noteq> 0,
      s\<lparr>sig_flags := (sig_flags s)(OS_sigs := sig_flags s OS_sigs AND NOT (signal_bitmask nsig n))\<rparr>)"
  by (simp add: pop_signal_def Let_def)

text \<open>
  Claim C1 says that \<^verbatim>\<open>pop_signal(n)\<close> answers true exactly when the bit of \<open>n\<close> was set,
  whatever other bits the category word holds. The code answers with the whole previous
  word: after one delivery of signal 2 and none of signal 15, \<^verbatim>\<open>test_signal(15)\<close> is
  false, yet \<^verbatim>\<open>pop_signal(15)\<close> answers true, and answers true again on the next call.
\<close>

theorem pop_signal_other_bit:
  "\<not> test_signal 65 15 (handler_callback 65 2 process_start)
   \<and> fst (pop_signal 65 15 (handler_callback 65 2 process_start))
   \<and> fst (pop_signal 65 15 (snd (pop_signal 65 15 (handler_callback 65 2 process_start))))"
  by (simp add: pop_signal_def test_signal_def handler_callback_def signal_bitmask_def
      process_start_def)

subsection \<open>Popping all signals\<close>

lemma sig_flags_clear [simp]: "sig_flags (clear_sig_flags s) c = 0"
  by (cases c) (simp_all add: clear_sig_flags_def)

lemma deliveries_OS:
  "sig_flags (deliveries nsig sigs s) OS_sigs =
     sig_flags s OS_sigs OR union_bits (map (signal_bitmask nsig) (filter (\<lambda>k. k < 32) sigs))"
  by (induction sigs arbitrary: s) (simp_all add: handler_callback_def ac_simps)

lemma deliveries_RT:
  "sig_flags (deliveries nsig sigs s) RT_sigs =
     sig_flags s RT_sigs OR
       union_bits (map (signal_bitmask nsig) (filter (\<lambda>k. 32 \<le> k \<and> k < 64) sigs))"
  by (induction sigs arbitrary: s) (simp_all add: handler_callback_def ac_simps)

lemma deliveries_reserved:
  "sig_flags (deliveries nsig sigs s) reserved =
     sig_flags s reserved OR union_bits (map (signal_bitmask nsig) (filter (\<lambda>k. 64 \<le> k) sigs))"
  by (induction sigs arbitrary: s) (simp_all add: handler_callback_def ac_simps)

text \<open>
  Claim C7. \<^verbatim>\<open>pop_all_signals\<close> hands out the three category words as they are, answers
  true exactly when one of them holds a bit, and leaves a state in which
  \<^verbatim>\<open>test_all_signals\<close> reports three zero words and answers false. After any sequence of
  deliveries that follows a clearing of the words, each word it hands out is the union
  of the bit masks of the delivered signals of that category. (The call is taken as a
  whole: no delivery falls between its loads and its stores.)
\<close>

theorem pop_all_signals_round_trip:
  "pop_all_signals s =
     (sig_flags s OS_sigs \<noteq> 0 \<or> sig_flags s RT_sigs \<noteq> 0 \<or> sig_flags s reserved \<noteq> 0,
      \<lparr>OS_sigs_bits = sig_flags s OS_sigs, RT_sigs_bits = sig_flags s RT_sigs,
       reserved_bits = sig_flags s reserved\<rparr>,
      clear_sig_flags s)
   \<and> test_all_signals (snd (snd (pop_all_signals s))) =
       (False, \<lparr>OS_sigs_bits = 0, RT_sigs_bits = 0, reserved_bits = 0\<rparr>)
   \<and> fst (snd (pop_all_signals (deliveries nsig sigs (clear_sig_flags s)))) =
       \<lparr>OS_sigs_bits = union_bits (map (signal_bitmask nsig) (filter (\<lambda>k. k < 32) sigs)),
        RT_sigs_bits =
          union_bits (map (signal_bitmask nsig) (filter (\<lambda>k. 32 \<le> k \<and> k < 64) sigs)),
        reserved_bits = union_bits (map (signal_bitmask nsig) (filter (\<lambda>k. 64 \<le> k) sigs))\<rparr>"
  by (simp add: pop_all_signals_def test_all_signals_def deliveries_OS deliveries_RT
      deliveries_reserved)

theorem pop_all_signals_round_trip_witness:
  "pop_all_signals (deliveries 65 [2, 15, 34, 2] process_start) =
     (True, \<lparr>OS_sigs_bits = 16386, RT_sigs_bits = 4, reserved_bits = 0\<rparr>,
      clear_sig_flags (deliveries 65 [2, 15, 34, 2] process_start))
   \<and> test_all_signals (snd (snd (pop_all_signals (deliveries 65 [2, 15, 34, 2] process_start)))) =
       (False, \<lparr>OS_sigs_bits = 0, RT_sigs_bits = 0, reserved_bits = 0\<rparr>)
   \<and> fst (snd (pop_all_signals (deliveries 65 [2, 15, 34, 2] (clear_sig_flags process_start)))) =
       \<lparr>OS_sigs_bits = 16386, RT_sigs_bits = 4, reserved_bits = 0\<rparr>"
  using pop_all_signals_round_trip [of "deliveries 65 [2, 15, 34, 2] process_start" 65 "[]"]
    pop_all_signals_round_trip [of process_start 65 "[2, 15, 34, 2]"]
  by (simp add: handler_callback_def signal_bitmask_def process_start_def
      pop_all_signals_def test_all_signals_def)

section \<open>Properties of the construction\<close>

subsection \<open>What the constructor leaves of the flag\<close>

lemma pthread_sigmask_instance [simp]:
  "instance_exists (snd (pthread_sigmask env how sigs s)) = instance_exists s"
  by (simp add: pthread_sigmask_def)

lemma restore_actions_instance [simp]:
  "instance_exists (restore_actions env this s) = instance_exists s"
  by (simp add: restore_actions_def Let_def)

lemma clear_sig_flags_instance [simp]:
  "instance_exists (clear_sig_flags s) = instance_exists s"
  by (simp add: clear_sig_flags_def)

lemma sys_sigaction_instance [simp]:
  "instance_exists (snd (snd (sys_sigaction env signum act oldact s))) = instance_exists s"
  by (simp add: sys_sigaction_def split: option.splits)

lemma install_handlers_instance:
  "install_handlers env flags throw_sig_error signal_list this s = (r, s') \<Longrightarrow>
   instance_exists s' = (case r of Inl e \<Rightarrow> False | Inr this' \<Rightarrow> instance_exists s)"
proof (induction signal_list arbitrary: this s)
  case Nil
  then show ?case by auto
next
  case (Cons signal signal_list)
  obtain rc old_sa_struct s1 where sa:
    "sys_sigaction env signal
       \<lparr>sa_sigaction = Handler_callback, sa_mask = {}, sa_flags = flags OR SA_SIGINFO env\<rparr>
       (uninitialised env) s = (rc, old_sa_struct, s1)"
    by (cases "sys_sigaction env signal
       \<lparr>sa_sigaction = Handler_callback, sa_mask = {}, sa_flags = flags OR SA_SIGINFO env\<rparr>
       (uninitialised env) s") auto
  have s1: "instance_exists s1 = instance_exists s"
    using sa by (auto simp add: sys_sigaction_def split: option.splits)
  show ?case
  proof (cases "rc = - 1 \<and> throw_sig_error")
    case True
    with Cons.prems sa show ?thesis by (auto simp add: Let_def)
  next
    case False
    with Cons.prems sa have
      "install_handlers env flags throw_sig_error signal_list
         (this\<lparr>old_handlers := (old_handlers this)(signal \<mapsto> old_sa_struct)\<rparr>) s1 = (r, s')"
      by (auto simp add: Let_def)
    from Cons.IH [OF this] s1 show ?thesis by (simp split: sum.splits)
  qed
qed

lemma install_handlers_succeeds:
  "throw_sig_error \<longrightarrow> (\<forall>signal\<in>set signal_list. sigaction_errno env signal = None) \<Longrightarrow>
   \<exists>this' s'. install_handlers env flags throw_sig_error signal_list this s = (Inr this', s')"
proof (induction signal_list arbitrary: this s)
  case Nil
  then show ?case by simp
next
  case (Cons signal signal_list)
  obtain rc old_sa_struct s1 where sa:
    "sys_sigaction env signal
       \<lparr>sa_sigaction = Handler_callback, sa_mask = {}, sa_flags = flags OR SA_SIGINFO env\<rparr>
       (uninitialised env) s = (rc, old_sa_struct, s1)"
    by (cases "sys_sigaction env signal
       \<lparr>sa_sigaction = Handler_callback, sa_mask = {}, sa_flags = flags OR SA_SIGINFO env\<rparr>
       (uninitialised env) s") auto
  have "\<not> (rc = - 1 \<and> throw_sig_error)"
    using Cons.prems sa by (auto simp add: sys_sigaction_def split: option.splits)
  moreover have "\<exists>this' s'. install_handlers env flags throw_sig_error signal_list
         (this\<lparr>old_handlers := (old_handlers this)(signal \<mapsto> old_sa_struct)\<rparr>) s1 = (Inr this', s')"
    using Cons.IH Cons.prems by simp
  ultimately show ?case
    using sa by (auto simp add: Let_def)
qed

lemma find_Some_member: "find P xs = Some x \<Longrightarrow> P x \<and> x \<in> set xs"
  by (induction xs) (auto split: if_splits)

lemma find_None_legal:
  "(find (\<lambda>signal. signal \<le> 0 \<or> nsig \<le> signal) signal_list = None) =
     (\<forall>signal\<in>set signal_list. 0 < signal \<and> signal < (nsig :: int))"
  by (induction signal_list) auto

lemma ctor_exists:
  "instance_exists s \<Longrightarrow>
   SignalHandler_ctor nsig env signal_list flags throw_sig_error s = (Inl logic_error, s)"
  by (simp add: SignalHandler_ctor_def)

lemma ctor_pairs_exists:
  "instance_exists s \<Longrightarrow>
   SignalHandler_ctor_pairs nsig env initialiser_list throw_sig_error s = (Inl logic_error, s)"
  by (simp add: SignalHandler_ctor_pairs_def)

lemma ctor_instance:
  assumes "SignalHandler_ctor nsig env signal_list flags throw_sig_error s = (Inr this, s')"
  shows "instance_exists s'"
proof -
  have ne: "\<not> instance_exists s"
    using assms by (auto simp add: SignalHandler_ctor_def split: if_splits)
  have none: "find (\<lambda>signal. signal \<le> 0 \<or> nsig \<le> signal) signal_list = None"
    using assms ne
    by (cases "find (\<lambda>signal. signal \<le> 0 \<or> nsig \<le> signal) signal_list")
      (auto simp add: SignalHandler_ctor_def)
  have errc: "sigmask_errc env = 0"
    using assms ne none
    by (cases "sigmask_errc env = 0")
      (auto simp add: SignalHandler_ctor_def pthread_sigmask_def Let_def)
  obtain r1 s3 where inst: "install_handlers env flags throw_sig_error signal_list
      \<lparr>sigmask = set signal_list, old_handlers = Map.empty, dispatch_thread = False\<rparr>
      (s\<lparr>instance_exists := True, blocked_signals := blocked_signals s \<union> (set signal_list - unblockable env)\<rparr>) = (r1, s3)"
    by (cases "install_handlers env flags throw_sig_error signal_list
      \<lparr>sigmask = set signal_list, old_handlers = Map.empty, dispatch_thread = False\<rparr>
      (s\<lparr>instance_exists := True, blocked_signals := blocked_signals s \<union> (set signal_list - unblockable env)\<rparr>)") auto
  from assms ne none errc inst obtain this1 where "r1 = Inr this1" and "s' = clear_sig_flags s3"
    by (auto simp add: SignalHandler_ctor_def pthread_sigmask_def split: sum.splits option.splits)
  with install_handlers_instance [OF inst] show ?thesis by simp
qed

lemma ctor_succeeds:
  assumes "\<not> instance_exists s"
    and "\<forall>signal\<in>set signal_list. 0 < signal \<and> signal < nsig"
    and "sigmask_errc env = 0"
    and "throw_sig_error \<longrightarrow> (\<forall>signal\<in>set signal_list. sigaction_errno env signal = None)"
    and "dispatcher_errc env = None"
  shows "\<exists>this s'. SignalHandler_ctor nsig env signal_list flags throw_sig_error s = (Inr this, s')
           \<and> instance_exists s'"
proof -
  have none: "find (\<lambda>signal. signal \<le> 0 \<or> nsig \<le> signal) signal_list = None"
    using assms(2) by (simp add: find_None_legal)
  obtain this1 s3 where inst: "install_handlers env flags throw_sig_error signal_list
        \<lparr>sigmask = set signal_list, old_handlers = Map.empty, dispatch_thread = False\<rparr>
        (s\<lparr>instance_exists := True, blocked_signals := blocked_signals s \<union> (set signal_list - unblockable env)\<rparr>) = (Inr this1, s3)"
    using install_handlers_succeeds [OF assms(4)] by blast
  then have ctor: "SignalHandler_ctor nsig env signal_list flags throw_sig_error s =
      (Inr (this1\<lparr>dispatch_thread := True\<rparr>), clear_sig_flags s3)"
    using assms(1,3,5) none by (simp add: SignalHandler_ctor_def pthread_sigmask_def)
  from ctor_instance [OF ctor] ctor show ?thesis by simp
qed


lemma install_handlers_pairs_instance:
  "install_handlers_pairs env throw_sig_error initialiser_list this s = (r, s') \<Longrightarrow>
   instance_exists s' = (case r of Inl e \<Rightarrow> False | Inr this' \<Rightarrow> instance_exists s)"
proof (induction initialiser_list arbitrary: this s)
  case Nil
  then show ?case by auto
next
  case (Cons p initialiser_list)
  obtain signal flags where p: "p = (signal, flags)" by (cases p)
  obtain rc old_sa_struct s1 where sa:
    "sys_sigaction env signal
       \<lparr>sa_sigaction = Handler_callback, sa_mask = {}, sa_flags = flags OR SA_SIGINFO env\<rparr>
       (uninitialised env) s = (rc, old_sa_struct, s1)"
    by (cases "sys_sigaction env signal
       \<lparr>sa_sigaction = Handler_callback, sa_mask = {}, sa_flags = flags OR SA_SIGINFO env\<rparr>
       (uninitialised env) s") auto
  have s1: "instance_exists s1 = instance_exists s"
    using sa by (auto simp add: sys_sigaction_def split: option.splits)
  show ?case
  proof (cases "rc = - 1 \<and> throw_sig_error")
    case True
    with Cons.prems sa p show ?thesis by (auto simp add: Let_def)
  next
    case False
    with Cons.prems sa p have
      "install_handlers_pairs env throw_sig_error initialiser_list
         (this\<lparr>old_handlers := (old_handlers this)(signal \<mapsto> old_sa_struct)\<rparr>) s1 = (r, s')"
      by (auto simp add: Let_def)
    from Cons.IH [OF this] s1 show ?thesis by (simp split: sum.splits)
  qed
qed

lemma install_handlers_pairs_succeeds:
  "throw_sig_error \<longrightarrow> (\<forall>signal\<in>fst ` set initialiser_list. sigaction_errno env signal = None) \<Longrightarrow>
   \<exists>this' s'. install_handlers_pairs env throw_sig_error initialiser_list this s = (Inr this', s')"
proof (induction initialiser_list arbitrary: this s)
  case Nil
  then show ?case by simp
next
  case (Cons p initialiser_list)
  obtain signal flags where p: "p = (signal, flags)" by (cases p)
  obtain rc old_sa_struct s1 where sa:
    "sys_sigaction env signal
       \<lparr>sa_sigaction = Handler_callback, sa_mask = {}, sa_flags = flags OR SA_SIGINFO env\<rparr>
       (uninitialised env) s = (rc, old_sa_struct, s1)"
    by (cases "sys_sigaction env signal
       \<lparr>sa_sigaction = Handler_callback, sa_mask = {}, sa_flags = flags OR SA_SIGINFO env\<rparr>
       (uninitialised env) s") auto
  have "\<not> (rc = - 1 \<and> throw_sig_error)"
    using Cons.prems sa p by (auto simp add: sys_sigaction_def split: option.splits)
  moreover have "\<exists>this' s'. install_handlers_pairs env throw_sig_error initialiser_list
         (this\<lparr>old_handlers := (old_handlers this)(signal \<mapsto> old_sa_struct)\<rparr>) s1 = (Inr this', s')"
    using Cons.IH Cons.prems by simp
  ultimately show ?case
    using sa p by (auto simp add: Let_def)
qed

lemma find_pairs_None_legal:
  "(find (\<lambda>(signal, _). signal \<le> 0 \<or> nsig \<le> signal) initialiser_list = None) =
     (\<forall>signal\<in>fst ` set initialiser_list. 0 < signal \<and> signal < (nsig :: int))"
  by (induction initialiser_list) auto

lemma ctor_pairs_instance:
  assumes "SignalHandler_ctor_pairs nsig env initialiser_list throw_sig_error s = (Inr this, s')"
  shows "instance_exists s'"
proof -
  have ne: "\<not> instance_exists s"
    using assms by (auto simp add: SignalHandler_ctor_pairs_def split: if_splits)
  have none: "find (\<lambda>(signal, _). signal \<le> 0 \<or> nsig \<le> signal) initialiser_list = None"
    using assms ne
    by (cases "find (\<lambda>(signal, _). signal \<le> 0 \<or> nsig \<le> signal) initialiser_list")
      (auto simp add: SignalHandler_ctor_pairs_def)
  have errc: "sigmask_errc env = 0"
    using assms ne none
    by (cases "sigmask_errc env = 0")
      (auto simp add: SignalHandler_ctor_pairs_def pthread_sigmask_def Let_def)
  obtain r1 s3 where inst: "install_handlers_pairs env throw_sig_error initialiser_list
      \<lparr>sigmask = fst ` set initialiser_list, old_handlers = Map.empty, dispatch_thread = False\<rparr>
      (s\<lparr>instance_exists := True,
         blocked_signals := blocked_signals s \<union> (fst ` set initialiser_list - unblockable env)\<rparr>) = (r1, s3)"
    by (cases "install_handlers_pairs env throw_sig_error initialiser_list
      \<lparr>sigmask = fst ` set initialiser_list, old_handlers = Map.empty, dispatch_thread = False\<rparr>
      (s\<lparr>instance_exists := True,
         blocked_signals := blocked_signals s \<union> (fst ` set initialiser_list - unblockable env)\<rparr>)") auto
  from assms ne none errc inst obtain this1 where "r1 = Inr this1" and "s' = clear_sig_flags s3"
    by (auto simp add: SignalHandler_ctor_pairs_def pthread_sigmask_def
        split: sum.splits option.splits)
  with install_handlers_pairs_instance [OF inst] show ?thesis by simp
qed

lemma ctor_pairs_succeeds:
  assumes "\<not> instance_exists s"
    and "\<forall>signal\<in>fst ` set initialiser_list. 0 < signal \<and> signal < nsig"
    and "sigmask_errc env = 0"
    and "throw_sig_error \<longrightarrow> (\<forall>signal\<in>fst ` set initialiser_list. sigaction_errno env signal = None)"
    and "dispatcher_errc env = None"
  shows "\<exists>this s'. SignalHandler_ctor_pairs nsig env initialiser_list throw_sig_error s = (Inr this, s')
           \<and> instance_exists s'"
proof -
  have none: "find (\<lambda>(signal, _). signal \<le> 0 \<or> nsig \<le> signal) initialiser_list = None"
    using assms(2) by (simp add: find_pairs_None_legal)
  obtain this1 s3 where inst: "install_handlers_pairs env throw_sig_error initialiser_list
        \<lparr>sigmask = fst ` set initialiser_list, old_handlers = Map.empty, dispatch_thread = False\<rparr>
        (s\<lparr>instance_exists := True,
           blocked_signals := blocked_signals s \<union> (fst ` set initialiser_list - unblockable env)\<rparr>) = (Inr this1, s3)"
    using install_handlers_pairs_succeeds [OF assms(4)] by blast
  then have ctor: "SignalHandler_ctor_pairs nsig env initialiser_list throw_sig_error s =
      (Inr (this1\<lparr>dispatch_thread := True\<rparr>), clear_sig_flags s3)"
    using assms(1,3,5) none by (simp add: SignalHandler_ctor_pairs_def pthread_sigmask_def)
  from ctor_pairs_instance [OF ctor] ctor show ?thesis by simp
qed

lemma ctor_illegal:
  assumes "\<not> instance_exists s" and "\<exists>signal\<in>set signal_list. signal \<le> 0 \<or> nsig \<le> signal"
  shows "\<exists>bad. bad \<in> set signal_list \<and> (bad \<le> 0 \<or> nsig \<le> bad)
           \<and> SignalHandler_ctor nsig env signal_list flags throw_sig_error s =
               (Inl (invalid_argument_signal bad), s)"
proof -
  from assms(2) obtain bad where
    bad: "find (\<lambda>signal. signal \<le> 0 \<or> nsig \<le> signal) signal_list = Some bad"
    by (cases "find (\<lambda>signal. signal \<le> 0 \<or> nsig \<le> signal) signal_list")
      (auto simp add: find_None_legal)
  then have "bad \<in> set signal_list \<and> (bad \<le> 0 \<or> nsig \<le> bad)"
    by (auto dest: find_Some_member)
  moreover have "SignalHandler_ctor nsig env signal_list flags throw_sig_error s =
               (Inl (invalid_argument_signal bad), s)"
    using assms(1) bad by (simp add: SignalHandler_ctor_def)
  ultimately show ?thesis by blast
qed

lemma ctor_pairs_illegal:
  assumes "\<not> instance_exists s"
    and "\<exists>signal\<in>fst ` set initialiser_list. signal \<le> 0 \<or> nsig \<le> signal"
  shows "\<exists>bad. bad \<in> fst ` set initialiser_list \<and> (bad \<le> 0 \<or> nsig \<le> bad)
           \<and> SignalHandler_ctor_pairs nsig env initialiser_list throw_sig_error s =
               (Inl (invalid_argument_signal bad), s)"
proof -
  from assms(2) obtain bad f where
    bad: "find (\<lambda>(signal, _). signal \<le> 0 \<or> nsig \<le> signal) initialiser_list = Some (bad, f)"
    by (cases "find (\<lambda>(signal, _). signal \<le> 0 \<or> nsig \<le> signal) initialiser_list")
      (auto simp add: find_pairs_None_legal)
  then have "(bad, f) \<in> set initialiser_list \<and> (bad \<le> 0 \<or> nsig \<le> bad)"
    by (auto dest: find_Some_member)
  then have "bad \<in> fst ` set initialiser_list \<and> (bad \<le> 0 \<or> nsig \<le> bad)"
    by force
  moreover have "SignalHandler_ctor_pairs nsig env initialiser_list throw_sig_error s =
               (Inl (invalid_argument_signal bad), s)"
    using assms(1) bad by (simp add: SignalHandler_ctor_pairs_def)
  ultimately show ?thesis by blast
qed

lemma dtor_instance [simp]: "\<not> instance_exists (SignalHandler_dtor env this s)"
  by (simp add: SignalHandler_dtor_def)

lemma lifecycle_step_single:
  assumes "length alive \<le> 1 \<and> (alive \<noteq> [] \<longrightarrow> instance_exists s)"
    and "lifecycle_step nsig ev (s, alive) = (s', alive')"
  shows "length alive' \<le> 1 \<and> (alive' \<noteq> [] \<longrightarrow> instance_exists s')"
proof (cases ev)
  case (Construct env signal_list flags throw_sig_error)
  show ?thesis
  proof (cases "instance_exists s")
    case True
    with assms Construct show ?thesis by (auto simp add: ctor_exists)
  next
    case False
    with assms(1) have empty: "alive = []" by auto
    obtain r s1 where c: "SignalHandler_ctor nsig env signal_list flags throw_sig_error s = (r, s1)"
      by (cases "SignalHandler_ctor nsig env signal_list flags throw_sig_error s") auto
    show ?thesis
    proof (cases r)
      case (Inl e)
      with assms Construct c empty show ?thesis by auto
    next
      case (Inr this)
      with c have "instance_exists s1" by (auto intro: ctor_instance)
      with assms Construct c empty Inr show ?thesis by auto
    qed
  qed
next
  case (Construct_pairs env initialiser_list throw_sig_error)
  show ?thesis
  proof (cases "instance_exists s")
    case True
    with assms Construct_pairs show ?thesis by (auto simp add: ctor_pairs_exists)
  next
    case False
    with assms(1) have empty: "alive = []" by auto
    obtain r s1 where c: "SignalHandler_ctor_pairs nsig env initialiser_list throw_sig_error s = (r, s1)"
      by (cases "SignalHandler_ctor_pairs nsig env initialiser_list throw_sig_error s") auto
    show ?thesis
    proof (cases r)
      case (Inl e)
      with assms Construct_pairs c empty show ?thesis by auto
    next
      case (Inr this)
      with c have "instance_exists s1" by (auto intro: ctor_pairs_instance)
      with assms Construct_pairs c empty Inr show ?thesis by auto
    qed
  qed
next
  case (Destroy env)
  with assms show ?thesis by (cases alive) auto
qed

lemma lifecycle_single:
  "length alive \<le> 1 \<and> (alive \<noteq> [] \<longrightarrow> instance_exists s) \<Longrightarrow>
   lifecycle nsig evs (s, alive) = (s', alive') \<Longrightarrow>
   length alive' \<le> 1 \<and> (alive' \<noteq> [] \<longrightarrow> instance_exists s')"
proof (induction evs arbitrary: s alive)
  case Nil
  then show ?case by simp
next
  case (Cons ev evs)
  obtain s1 alive1 where st: "lifecycle_step nsig ev (s, alive) = (s1, alive1)"
    by (cases "lifecycle_step nsig ev (s, alive)") auto
  from lifecycle_step_single [OF Cons.prems(1) st]
  have "length alive1 \<le> 1 \<and> (alive1 \<noteq> [] \<longrightarrow> instance_exists s1)" .
  moreover have "lifecycle nsig evs (s1, alive1) = (s', alive')"
    using Cons.prems(2) st by simp
  ultimately show ?case by (rule Cons.IH)
qed

subsection \<open>The two forms of the constructor\<close>

lemma find_pairs:
  "find (\<lambda>(signal, _). P signal) (map (\<lambda>signal. (signal, flags)) signal_list) =
     map_option (\<lambda>signal. (signal, flags)) (find P signal_list)"
  by (induction signal_list) simp_all

lemma install_handlers_pairs_same_flags:
  "install_handlers_pairs env throw_sig_error (map (\<lambda>signal. (signal, flags)) signal_list) this s =
     install_handlers env flags throw_sig_error signal_list this s"
  by (induction signal_list arbitrary: this s) (simp_all add: Let_def split: prod.splits)

text \<open>
  Claim C10. Constructing from a list of signals with one \<^verbatim>\<open>flags\<close> value and
  constructing from the list of pairs that gives every signal that same value are the
  same function of the process state and of the operating system's answers: the same
  error or the same object (signal set, saved dispositions), and the same process state
  afterwards (installed dispositions, signal mask, category words, flag), hence the
  same answers to every later query.
\<close>

theorem constructors_agree:
  "SignalHandler_ctor_pairs nsig env (map (\<lambda>signal. (signal, flags)) signal_list) throw_sig_error s =
     SignalHandler_ctor nsig env signal_list flags throw_sig_error s"
proof -
  have mask: "map fst (map (\<lambda>signal. (signal, flags)) signal_list) = signal_list"
    by (induction signal_list) simp_all
  show ?thesis
    unfolding SignalHandler_ctor_pairs_def SignalHandler_ctor_def find_pairs
      install_handlers_pairs_same_flags mask
    by (cases "find (\<lambda>signal. signal \<le> 0 \<or> nsig \<le> signal) signal_list") simp_all
qed

theorem constructors_agree_witness:
  "SignalHandler_ctor_pairs 65 linux_env [(2, 4), (9, 4), (15, 4)] False process_start =
     SignalHandler_ctor 65 linux_env [2, 9, 15] 4 False process_start
   \<and> SignalHandler_ctor_pairs 65 linux_env [(2, 4), (9, 4), (15, 4)] True process_start =
     SignalHandler_ctor 65 linux_env [2, 9, 15] 4 True process_start"
  using constructors_agree [of 65 linux_env 4 "[2, 9, 15]" False process_start]
    constructors_agree [of 65 linux_env 4 "[2, 9, 15]" True process_start]
  by simp

subsection \<open>One object at a time\<close>

text \<open>
  Claim C5. While the flag is set, a construction of either form throws the logic error
  and leaves the process state as it is. In every trace of constructions and
  destructions that starts with no object, at most one object is alive, and the flag is
  set while one is. The destructor clears the flag, and a construction that follows it
  succeeds, given signals in the legal range and an operating system that blocks the
  mask, installs the handlers (or the lenient policy) and starts the dispatcher.
\<close>

theorem single_instance:
  "(instance_exists s \<longrightarrow>
      SignalHandler_ctor nsig env signal_list flags throw_sig_error s = (Inl logic_error, s)
      \<and> SignalHandler_ctor_pairs nsig env initialiser_list throw_sig_error s = (Inl logic_error, s))
   \<and> (lifecycle nsig evs (s0, []) = (s1, alive) \<longrightarrow>
        length alive \<le> 1 \<and> (alive \<noteq> [] \<longrightarrow> instance_exists s1))
   \<and> \<not> instance_exists (SignalHandler_dtor env this s)
   \<and> ((\<forall>signal\<in>set signal_list. 0 < signal \<and> signal < nsig) \<and> sigmask_errc env' = 0
        \<and> (throw_sig_error \<longrightarrow> (\<forall>signal\<in>set signal_list. sigaction_errno env' signal = None))
        \<and> dispatcher_errc env' = None \<longrightarrow>
        (\<exists>this' s'. SignalHandler_ctor nsig env' signal_list flags throw_sig_error
                      (SignalHandler_dtor env this s) = (Inr this', s') \<and> instance_exists s'))
   \<and> ((\<forall>signal\<in>fst ` set initialiser_list. 0 < signal \<and> signal < nsig) \<and> sigmask_errc env' = 0
        \<and> (throw_sig_error \<longrightarrow>
             (\<forall>signal\<in>fst ` set initialiser_list. sigaction_errno env' signal = None))
        \<and> dispatcher_errc env' = None \<longrightarrow>
        (\<exists>this' s'. SignalHandler_ctor_pairs nsig env' initialiser_list throw_sig_error
                      (SignalHandler_dtor env this s) = (Inr this', s') \<and> instance_exists s'))"
proof (intro conjI impI)
  assume "instance_exists s"
  then show "SignalHandler_ctor nsig env signal_list flags throw_sig_error s = (Inl logic_error, s)"
    and "SignalHandler_ctor_pairs nsig env initialiser_list throw_sig_error s = (Inl logic_error, s)"
    by (simp_all add: ctor_exists ctor_pairs_exists)
next
  assume h: "lifecycle nsig evs (s0, []) = (s1, alive)"
  have "length ([] :: SignalHandler list) \<le> 1
      \<and> (([] :: SignalHandler list) \<noteq> [] \<longrightarrow> instance_exists s0)"
    by simp
  from lifecycle_single [OF this h]
  show "length alive \<le> 1" and "alive \<noteq> [] \<Longrightarrow> instance_exists s1" by blast+
next
  show "\<not> instance_exists (SignalHandler_dtor env this s)" by simp
next
  assume "(\<forall>signal\<in>set signal_list. 0 < signal \<and> signal < nsig) \<and> sigmask_errc env' = 0
        \<and> (throw_sig_error \<longrightarrow> (\<forall>signal\<in>set signal_list. sigaction_errno env' signal = None))
        \<and> dispatcher_errc env' = None"
  then show "\<exists>this' s'. SignalHandler_ctor nsig env' signal_list flags throw_sig_error
                      (SignalHandler_dtor env this s) = (Inr this', s') \<and> instance_exists s'"
    by (intro ctor_succeeds) simp_all
next
  assume "(\<forall>signal\<in>fst ` set initialiser_list. 0 < signal \<and> signal < nsig) \<and> sigmask_errc env' = 0
        \<and> (throw_sig_error \<longrightarrow>
             (\<forall>signal\<in>fst ` set initialiser_list. sigaction_errno env' signal = None))
        \<and> dispatcher_errc env' = None"
  then show "\<exists>this' s'. SignalHandler_ctor_pairs nsig env' initialiser_list throw_sig_error
                      (SignalHandler_dtor env this s) = (Inr this', s') \<and> instance_exists s'"
    by (intro ctor_pairs_succeeds) simp_all
qed

lemma first_construction_succeeds:
  "\<exists>this s'. first_construction = (Inr this, s') \<and> instance_exists s'"
  unfolding first_construction_def
  by (rule ctor_succeeds) (simp_all add: process_start_def linux_env_def)

lemma first_construction_alive: "instance_exists (snd first_construction)"
  using first_construction_succeeds by (metis snd_conv)

theorem single_instance_witness:
  "instance_exists (snd first_construction)
   \<and> SignalHandler_ctor 65 linux_env [10] 0 True (snd first_construction) =
       (Inl logic_error, snd first_construction)
   \<and> SignalHandler_ctor_pairs 65 linux_env [(10, 0)] True (snd first_construction) =
       (Inl logic_error, snd first_construction)
   \<and> length (snd (lifecycle 65
        [Construct linux_env [2, 15] 0 True, Construct_pairs linux_env [(10, 0)] True]
        (process_start, []))) \<le> 1
   \<and> \<not> instance_exists
         (SignalHandler_dtor linux_env (projr (fst first_construction)) (snd first_construction))
   \<and> (\<exists>this' s'. SignalHandler_ctor 65 linux_env [10] 0 True
         (SignalHandler_dtor linux_env (projr (fst first_construction)) (snd first_construction)) =
           (Inr this', s') \<and> instance_exists s')
   \<and> (\<exists>this' s'. SignalHandler_ctor_pairs 65 linux_env [(10, 0)] True
         (SignalHandler_dtor linux_env (projr (fst first_construction)) (snd first_construction)) =
           (Inr this', s') \<and> instance_exists s')"
proof -
  have legal: "(\<forall>signal\<in>set [10 :: int]. 0 < signal \<and> signal < 65) \<and> sigmask_errc linux_env = 0
      \<and> (True \<longrightarrow> (\<forall>signal\<in>set [10]. sigaction_errno linux_env signal = None))
      \<and> dispatcher_errc linux_env = None"
    by (simp add: linux_env_def)
  have legal_pairs: "(\<forall>signal\<in>fst ` set [(10 :: int, 0 :: int)]. 0 < signal \<and> signal < 65)
      \<and> sigmask_errc linux_env = 0
      \<and> (True \<longrightarrow> (\<forall>signal\<in>fst ` set [(10, 0 :: int)]. sigaction_errno linux_env signal = None))
      \<and> dispatcher_errc linux_env = None"
    by (simp add: linux_env_def)
  obtain s1 alive where life: "lifecycle 65
        [Construct linux_env [2, 15] 0 True, Construct_pairs linux_env [(10, 0)] True]
        (process_start, []) = (s1, alive)"
    by (cases "lifecycle 65
        [Construct linux_env [2, 15] 0 True, Construct_pairs linux_env [(10, 0)] True]
        (process_start, [])") auto
  show ?thesis
    using single_instance [where s = "snd first_construction" and nsig = 65 and env = linux_env
        and signal_list = "[10]" and flags = 0 and throw_sig_error = True
        and initialiser_list = "[(10, 0)]" and ?s0.0 = process_start
        and evs = "[Construct linux_env [2, 15] 0 True, Construct_pairs linux_env [(10, 0)] True]"
        and ?s1.0 = s1 and alive = alive and this = "projr (fst first_construction)"
        and env' = linux_env]
      first_construction_alive legal legal_pairs life
    by simp
qed

subsection \<open>An illegal signal number\<close>

text \<open>
  Claim C6. With no object alive, a construction of either form whose list holds a
  signal number outside the legal range throws the invalid-argument error for such a
  number, and the process state afterwards is the state before: no signal mask, no
  disposition and no category word has changed, and the flag is clear again. A
  construction with legal signals then succeeds, given an operating system that blocks
  the mask, installs the handlers (or the lenient policy) and starts the dispatcher.
\<close>

theorem illegal_signal_rejected:
  assumes "\<not> instance_exists s"
  shows "((\<exists>signal\<in>set signal_list. signal \<le> 0 \<or> nsig \<le> signal) \<longrightarrow>
            (\<exists>bad. bad \<in> set signal_list \<and> (bad \<le> 0 \<or> nsig \<le> bad)
               \<and> SignalHandler_ctor nsig env signal_list flags throw_sig_error s =
                   (Inl (invalid_argument_signal bad), s)))
       \<and> ((\<exists>signal\<in>fst ` set initialiser_list. signal \<le> 0 \<or> nsig \<le> signal) \<longrightarrow>
            (\<exists>bad. bad \<in> fst ` set initialiser_list \<and> (bad \<le> 0 \<or> nsig \<le> bad)
               \<and> SignalHandler_ctor_pairs nsig env initialiser_list throw_sig_error s =
                   (Inl (invalid_argument_signal bad), s)))
       \<and> ((\<forall>signal\<in>set legal_list. 0 < signal \<and> signal < nsig) \<and> sigmask_errc env' = 0
            \<and> (throw' \<longrightarrow> (\<forall>signal\<in>set legal_list. sigaction_errno env' signal = None))
            \<and> dispatcher_errc env' = None \<longrightarrow>
            (\<exists>this s'. SignalHandler_ctor nsig env' legal_list flags' throw' s = (Inr this, s')
               \<and> instance_exists s'))
       \<and> ((\<forall>signal\<in>fst ` set legal_pairs. 0 < signal \<and> signal < nsig) \<and> sigmask_errc env' = 0
            \<and> (throw' \<longrightarrow> (\<forall>signal\<in>fst ` set legal_pairs. sigaction_errno env' signal = None))
            \<and> dispatcher_errc env' = None \<longrightarrow>
            (\<exists>this s'. SignalHandler_ctor_pairs nsig env' legal_pairs throw' s = (Inr this, s')
               \<and> instance_exists s'))"
  using assms
  by (intro conjI impI ctor_illegal ctor_pairs_illegal ctor_succeeds ctor_pairs_succeeds) simp_all

theorem illegal_signal_rejected_witness:
  "SignalHandler_ctor 65 linux_env [2, 0, 70] 0 True process_start =
     (Inl (invalid_argument_signal 0), process_start)
   \<and> SignalHandler_ctor_pairs 65 linux_env [(2, 0), (70, 1)] True process_start =
     (Inl (invalid_argument_signal 70), process_start)
   \<and> (\<exists>this s'. SignalHandler_ctor 65 linux_env [2, 15] 0 True process_start = (Inr this, s')
        \<and> instance_exists s')
   \<and> (\<exists>this s'. SignalHandler_ctor_pairs 65 linux_env [(2, 0), (15, 1)] True process_start =
        (Inr this, s') \<and> instance_exists s')"
proof -
  have start: "\<not> instance_exists process_start"
    by (simp add: process_start_def)
  have env: "sigmask_errc linux_env = 0 \<and> sigaction_errno linux_env 2 = None
      \<and> sigaction_errno linux_env 15 = None \<and> dispatcher_errc linux_env = None"
    by (simp add: linux_env_def)
  have "SignalHandler_ctor 65 linux_env [2, 0, 70] 0 True process_start =
     (Inl (invalid_argument_signal 0), process_start)"
    by (simp add: SignalHandler_ctor_def process_start_def)
  moreover have "SignalHandler_ctor_pairs 65 linux_env [(2, 0), (70, 1)] True process_start =
     (Inl (invalid_argument_signal 70), process_start)"
    by (simp add: SignalHandler_ctor_pairs_def process_start_def)
  ultimately show ?thesis
    using illegal_signal_rejected [OF start, where signal_list = "[2, 0, 70]" and nsig = 65
        and env = linux_env and flags = 0 and throw_sig_error = True
        and initialiser_list = "[(2, 0), (70, 1)]" and legal_list = "[2, 15]"
        and env' = linux_env and throw' = True and flags' = 0
        and legal_pairs = "[(2, 0), (15, 1)]"] env
    by simp
qed

section \<open>Properties of ThreadManager\<close>

subsection \<open>The counter along an execution\<close>

lemma running_subset: "running s \<subseteq> fmdom' (threads s)"
  by (auto simp add: running_def split: option.splits intro: fmdom'I)

lemma finite_running: "finite (running s)"
  by (rule finite_subset [OF running_subset]) simp

lemma card_running_le: "card (running s) \<le> total_threads s"
  unfolding total_threads_def
  by (metis running_subset card_mono finite_fmdom' fmdom'.rep_eq fmdom.rep_eq fcard.rep_eq)

lemma counted_alive_le:
  assumes "counted (s, n, l)"
  shows "alive_threads s \<le> total_threads s + n + local_running l"
proof -
  have "alive_threads s = unat (of_nat (card (running s) + n + local_running l) :: uint32_t)"
    using assms by (simp add: alive_threads_def)
  also have "\<dots> \<le> card (running s) + n + local_running l"
    by (simp only: unat_of_nat mod_less_eq_dividend)
  also have "\<dots> \<le> total_threads s + n + local_running l"
    using card_running_le [of s] by simp
  finally show ?thesis .
qed

lemma running_counter [simp]: "running (s\<lparr>thread_counter := w\<rparr>) = running s"
  by (simp add: running_def)

lemma running_spawn_enter [simp]: "running (spawn_enter s) = running s"
  by (simp add: spawn_enter_def)

lemma running_spawn_rollback [simp]: "running (spawn_rollback s) = running s"
  by (simp add: spawn_rollback_def)

lemma running_insert:
  "tid |\<notin>| fmdom (threads s) \<Longrightarrow>
   running (spawn_insert tid has_returned s) =
     (if has_returned then running s else insert tid (running s))"
  by (auto simp add: running_def spawn_insert_def fmdom_notD split: option.splits if_splits)

lemma not_running_fresh: "tid |\<notin>| fmdom (threads s) \<Longrightarrow> tid \<notin> running s"
  by (auto simp add: running_def fmdom_notD split: option.splits)

lemma running_exit:
  "fmlookup (threads s) tid = Some thread \<Longrightarrow>
   running (thread_exit tid s) = running s - {tid}"
  by (auto simp add: running_def thread_exit_def split: option.splits if_splits)

lemma thread_exit_fresh:
  "tid |\<notin>| fmdom (threads s) \<Longrightarrow>
   thread_exit tid s = s\<lparr>thread_counter := thread_counter s - 1\<rparr>"
  by (simp add: thread_exit_def fmdom_notD)

lemma fmdom_thread_exit [simp]: "fmdom (threads (thread_exit tid s)) = fmdom (threads s)"
  by (auto simp add: thread_exit_def fmlookup_dom_iff split: option.splits)

lemma fmdom_request_stop [simp]:
  "fmdom (threads (snd (request_stop tid s))) = fmdom (threads s)"
  by (auto simp add: request_stop_def fmlookup_dom_iff split: option.splits)

lemma running_request_stop [simp]: "running (snd (request_stop tid s)) = running s"
  by (auto simp add: running_def request_stop_def split: option.splits if_splits)

lemma running_join [simp]: "running (join s) = {}"
  by (simp add: running_def join_def)

lemma all_returned_running: "all_returned s \<Longrightarrow> running s = {}"
  by (auto simp add: running_def all_returned_def split: option.splits dest: fmdomI)

lemma of_nat_pred:
  "n \<noteq> 0 \<Longrightarrow> of_nat (a + n + b) - (1 :: uint32_t) = of_nat (a + (n - 1) + b)"
  by (cases n) simp_all

lemma step_counted:
  assumes "counted c" and "step ev c = Some c'" and "\<not> records_fail ev"
  shows "counted c'"
proof -
  obtain s n l where c: "c = (s, n, l)" by (cases c)
  from assms(1) c have count: "thread_counter s = of_nat (card (running s) + n + local_running l)"
    and fresh: "local_fresh l s" by simp_all
  show ?thesis
  proof (cases ev)
    case Spawn_enter
    with assms(2) c count fresh show ?thesis
      by (cases l) (auto simp add: spawn_enter_def)
  next
    case (Spawn_start tid)
    with assms(2) c have "n \<noteq> 0" and "l = None" and "tid |\<notin>| fmdom (threads s)"
      and "c' = (s, n - 1, Some (tid, False))"
      by (cases l; auto split: if_splits)+
    with count show ?thesis by (cases n) simp_all
  next
    case (Spawn_start_fails e)
    with assms(2) c have n: "n \<noteq> 0" and l: "l = None"
      and c': "c' = (spawn_rollback s, n - 1, None)"
      by (cases l; auto split: if_splits)+
    have "thread_counter (spawn_rollback s) = thread_counter s - 1"
      by (simp add: spawn_rollback_def)
    with count n l c' show ?thesis
      by (simp add: of_nat_pred [of n _ 0, simplified])
  next
    case Spawn_insert
    with assms(2) c obtain tid r where l: "l = Some (tid, r)"
      and c': "c' = (spawn_insert tid r s, n, None)"
      by (auto split: option.splits)
    from fresh l have f: "tid |\<notin>| fmdom (threads s)" by simp
    have "card (running (spawn_insert tid r s)) = card (running s) + local_running l"
      using f l by (simp add: running_insert finite_running not_running_fresh)
    moreover have "thread_counter (spawn_insert tid r s) = thread_counter s"
      by (simp add: spawn_insert_def)
    ultimately show ?thesis
      using count c' by (simp add: ac_simps)
  next
    case Spawn_record_fails
    with assms(3) show ?thesis by simp
  next
    case (Thread_exit tid)
    show ?thesis
    proof (cases "l = Some (tid, False)")
      case True
      with assms(2) c Thread_exit have c': "c' = (thread_exit tid s, n, Some (tid, True))"
        by simp
      from fresh True have f: "tid |\<notin>| fmdom (threads s)" by simp
      then have "thread_exit tid s = s\<lparr>thread_counter := thread_counter s - 1\<rparr>"
        by (rule thread_exit_fresh)
      with count True c' f show ?thesis by simp
    next
      case False
      with assms(2) c Thread_exit obtain thread where look: "fmlookup (threads s) tid = Some thread"
        and run: "\<not> returned thread" and c': "c' = (thread_exit tid s, n, l)"
        by (auto split: option.splits if_splits)
      have mem: "tid \<in> running s"
        using look run by (simp add: running_def)
      then have "card (running s) \<noteq> 0"
        using finite_running [of s] by auto
      then obtain k where k: "card (running s) = Suc k"
        by (cases "card (running s)") auto
      have "card (running (thread_exit tid s)) = k"
        using look mem k finite_running [of s] by (simp add: running_exit)
      moreover have "thread_counter (thread_exit tid s) = thread_counter s - 1"
        by (simp add: thread_exit_def)
      moreover have "local_fresh l (thread_exit tid s)"
        using fresh by (cases l) auto
      ultimately show ?thesis
        using count c' k by simp
    qed
  next
    case Join
    with assms(2) c have ar: "all_returned s" and l: "l = None" and c': "c' = (join s, n, None)"
      by (auto split: if_splits)
    have "thread_counter (join s) = thread_counter s"
      by (simp add: join_def)
    then show ?thesis
      using count l c' all_returned_running [OF ar] by simp
  next
    case (Request_stop tid)
    with assms(2) c have l: "l = None" and c': "c' = (snd (request_stop tid s), n, None)"
      by (auto split: if_splits)
    have "thread_counter (snd (request_stop tid s)) = thread_counter s"
      by (simp add: request_stop_def split: option.splits)
    then show ?thesis
      using count l c' by simp
  next
    case Request_stop_all
    with assms(2) c count fresh show ?thesis
      by (cases l) (auto simp add: request_stop_all_def running_def)
  next
    case (Reserve limit)
    with assms(2) c count fresh show ?thesis
      by (auto simp add: reserve_def)
  qed
qed

lemma run_counted:
  "counted c \<Longrightarrow> run evs c = Some c' \<Longrightarrow> \<forall>ev\<in>set evs. \<not> records_fail ev \<Longrightarrow> counted c'"
proof (induction evs arbitrary: c)
  case Nil
  then show ?case by simp
next
  case (Cons ev evs)
  then obtain c1 where c1: "step ev c = Some c1" and rest: "run evs c1 = Some c'"
    by (auto split: option.splits)
  have "counted c1"
    using Cons.prems(1) c1 Cons.prems(3) by (auto intro: step_counted)
  then show ?case
    using Cons.IH rest Cons.prems(3) by auto
qed

lemma counted_init: "counted (ThreadManager_init, 0, None)"
  by (simp add: ThreadManager_init_def running_def)

subsection \<open>The status queries\<close>

lemma any_running_alive: "any_running s = (0 < alive_threads s)"
  by (simp add: any_running_def alive_threads_def word_greater_zero_iff unat_gt_0)

lemma all_running_alt: "all_running s = (total_threads s \<le> alive_threads s \<and> 0 < total_threads s)"
  unfolding all_running_def alive_threads_def total_threads_def by presburger

lemma total_threads_card: "total_threads s = card (fmdom' (threads s))"
  by (simp only: total_threads_def fmdom'_alt_def fcard.rep_eq)

lemma returned_card:
  assumes "fmlookup (threads s) tid = Some thread" and "returned thread"
  shows "card (running s) < total_threads s"
proof -
  have "tid \<in> fmdom' (threads s)" using assms(1) by (rule fmdom'I)
  moreover have "tid \<notin> running s" using assms by (simp add: running_def)
  ultimately have "running s \<subset> fmdom' (threads s)"
    using running_subset [of s] by auto
  then have "card (running s) < card (fmdom' (threads s))"
    by (simp add: psubset_card_mono)
  then show ?thesis
    by (simp only: total_threads_card)
qed

lemma mixed_scenario_counts:
  assumes "run evs (ThreadManager_init, 0, None) = Some (s, 0, None)"
    and "\<forall>ev\<in>set evs. \<not> records_fail ev"
    and "total_threads s < 2 ^ 32"
    and "fmlookup (threads s) tid = Some thread" and "returned thread"
    and "running s \<noteq> {}"
  shows "0 < alive_threads s \<and> alive_threads s < total_threads s"
proof -
  have "counted (s, 0, None)"
    using run_counted [OF counted_init assms(1,2)] .
  then have c: "thread_counter s = of_nat (card (running s))"
    by simp
  have less: "card (running s) < total_threads s"
    using assms(4,5) by (rule returned_card)
  then have "card (running s) < 2 ^ 32"
    using assms(3) by simp
  then have "alive_threads s = card (running s)"
    using c by (simp add: alive_threads_def unat_of_nat)
  moreover have "0 < card (running s)"
    using assms(6) finite_running [of s] by (simp add: card_gt_0_iff)
  ultimately show ?thesis
    using less by simp
qed

text \<open>
  Claim C3, as amended. \<^verbatim>\<open>all_running\<close> is true exactly when the counter is at least the
  size of the table and the table is not empty. Where the counter does not exceed the
  size this is the claimed condition (counter equal to size, table not empty). In the
  mixed scenario \<^verbatim>\<open>all_running\<close> is false and \<^verbatim>\<open>any_running\<close> is true: stated on the two
  counts, and stated on an execution in which no \<^verbatim>\<open>spawn_thread\<close> has failed after
  starting its thread, no \<^verbatim>\<open>spawn_thread\<close> call is under way, the table holds fewer than
  \<open>2 ^ 32\<close> threads, one of them has returned and one is running.
\<close>

theorem all_running_meaning:
  "all_running s = (total_threads s \<le> alive_threads s \<and> 0 < total_threads s)
   \<and> (alive_threads s \<le> total_threads s \<longrightarrow>
        all_running s = (alive_threads s = total_threads s \<and> 0 < total_threads s))
   \<and> (0 < alive_threads s \<and> alive_threads s < total_threads s \<longrightarrow>
        \<not> all_running s \<and> any_running s)
   \<and> (run evs (ThreadManager_init, 0, None) = Some (s, 0, None)
        \<and> (\<forall>ev\<in>set evs. \<not> records_fail ev)
        \<and> total_threads s < 2 ^ 32
        \<and> fmlookup (threads s) tid = Some thread \<and> returned thread \<and> running s \<noteq> {} \<longrightarrow>
        \<not> all_running s \<and> any_running s)"
proof (intro conjI impI)
  show "all_running s = (total_threads s \<le> alive_threads s \<and> 0 < total_threads s)"
    by (rule all_running_alt)
next
  assume "alive_threads s \<le> total_threads s"
  then show "all_running s = (alive_threads s = total_threads s \<and> 0 < total_threads s)"
    by (auto simp add: all_running_alt)
next
  assume "0 < alive_threads s \<and> alive_threads s < total_threads s"
  then show "\<not> all_running s" by (simp add: all_running_alt)
next
  assume "0 < alive_threads s \<and> alive_threads s < total_threads s"
  then show "any_running s" by (simp add: any_running_alive)
next
  assume "run evs (ThreadManager_init, 0, None) = Some (s, 0, None)
        \<and> (\<forall>ev\<in>set evs. \<not> records_fail ev)
        \<and> total_threads s < 2 ^ 32
        \<and> fmlookup (threads s) tid = Some thread \<and> returned thread \<and> running s \<noteq> {}"
  then have "0 < alive_threads s \<and> alive_threads s < total_threads s"
    using mixed_scenario_counts [of evs s tid thread] by blast
  then show "\<not> all_running s" and "any_running s"
    by (simp_all add: all_running_alt any_running_alive)
qed

lemma fmupd_again:
  "k \<noteq> k' \<Longrightarrow> fmupd k a (fmupd k' b (fmupd k c m)) = fmupd k' b (fmupd k a m)"
  by (simp add: fmupd_reorder_neq [of k k'])

lemma run_mixed: "run mixed_events (ThreadManager_init, 0, None) = Some (mixed_state, 0, None)"
  by (simp add: mixed_events_def mixed_state_def ThreadManager_init_def spawn_enter_def
      spawn_insert_def thread_exit_def fmupd_again)

lemma mixed_state_counts: "alive_threads mixed_state = 1 \<and> total_threads mixed_state = 2"
  by (simp add: mixed_state_def alive_threads_def total_threads_def fcard_finsert_if)

lemma mixed_running: "running mixed_state \<noteq> {}"
proof -
  have "2 \<in> running mixed_state"
    by (simp add: running_def mixed_state_def)
  then show ?thesis by blast
qed

theorem all_running_meaning_witness:
  "run mixed_events (ThreadManager_init, 0, None) = Some (mixed_state, 0, None)
   \<and> alive_threads mixed_state = 1 \<and> total_threads mixed_state = 2
   \<and> \<not> all_running mixed_state \<and> any_running mixed_state"
  using all_running_meaning [of mixed_state mixed_events 1 "\<lparr>stop_state = False, returned = True\<rparr>"]
    run_mixed mixed_state_counts mixed_running
  by (simp add: mixed_state_def mixed_events_def)

text \<open>
  Claim C3 as stated fails in a state that another thread can observe: with one thread
  spawned and running, a second \<^verbatim>\<open>spawn_thread\<close> call has made its \<^verbatim>\<open>fetch_add\<close> and waits
  for the lock. The counter is 2, the table holds 1 thread, and \<^verbatim>\<open>all_running\<close> is true.
\<close>

theorem all_running_counterexample:
  "run spawning_events (ThreadManager_init, 0, None) = Some (spawning_state, 1, None)
   \<and> all_running spawning_state
   \<and> alive_threads spawning_state = 2 \<and> total_threads spawning_state = 1
   \<and> \<not> (all_running spawning_state =
          (alive_threads spawning_state = total_threads spawning_state \<and> 0 < total_threads spawning_state))"
  by (simp add: spawning_events_def spawning_state_def ThreadManager_init_def spawn_enter_def
      spawn_insert_def all_running_def alive_threads_def total_threads_def fcard_finsert_if
      fcard_fempty)

subsection \<open>Spawning\<close>

lemma spawn_thread_started:
  assumes "tid |\<notin>| fmdom (threads s)" and "alive_threads s < 2 ^ 32 - 1"
  shows "fst (spawn_thread (Thread_started tid) s) = Inr tid
       \<and> total_threads (snd (spawn_thread (Thread_started tid) s)) = Suc (total_threads s)
       \<and> alive_threads (snd (spawn_thread (Thread_started tid) s)) = Suc (alive_threads s)"
proof -
  have "unat (thread_counter s + 1) = Suc (unat (thread_counter s))"
    using assms(2) by (simp add: alive_threads_def unat_word_ariths)
  then show ?thesis
    using assms(1)
    by (simp add: spawn_thread_def spawn_locked_def spawn_insert_def spawn_enter_def
        total_threads_def alive_threads_def fcard_finsert_if)
qed

lemma spawn_thread_start_fails:
  "spawn_thread (Thread_start_fails e) s = (Inl (system_error e), s)"
  by (simp add: spawn_thread_def spawn_locked_def spawn_rollback_def spawn_enter_def)

text \<open>
  The three outcomes of \<^verbatim>\<open>spawn_thread\<close> as executions: a call that nothing interrupts is
  the sequence of its events, with the end of the new thread before the handler when
  the insertion fails.
\<close>

lemma spawn_thread_execution:
  assumes "tid |\<notin>| fmdom (threads s)"
  shows "run [Spawn_enter, Spawn_start tid, Spawn_insert] (s, n, None) =
           Some (snd (spawn_thread (Thread_started tid) s), n, None)"
    and "run [Spawn_enter, Spawn_start_fails e] (s, n, None) =
           Some (snd (spawn_thread (Thread_start_fails e) s), n, None)"
    and "run [Spawn_enter, Spawn_start tid, Thread_exit tid, Spawn_record_fails] (s, n, None) =
           Some (snd (spawn_thread (Record_fails tid) s), n, None)"
  using assms by (simp_all add: spawn_thread_def spawn_locked_def spawn_enter_def)

lemma early_exit_execution:
  assumes "tid |\<notin>| fmdom (threads s)"
  shows "run [Spawn_enter, Spawn_start tid, Thread_exit tid, Spawn_insert] (s, n, None) =
           Some (spawn_insert tid True s, n, None)"
  using assms by (simp add: spawn_enter_def thread_exit_def spawn_insert_def fmdom_notD)

lemma spawn_insert_counts:
  assumes "tid |\<notin>| fmdom (threads s)"
  shows "total_threads (spawn_insert tid has_returned s) = total_threads s + 1"
    and "alive_threads (spawn_insert tid has_returned s) = alive_threads s"
  using assms by (simp_all add: spawn_insert_def total_threads_def alive_threads_def fcard_finsert_if)

text \<open>
  Claim C4 says that a \<^verbatim>\<open>spawn_thread\<close> that fails leaves the counter where it was, also
  when the failure is that of recording the started thread. In that case the code
  decrements twice, once at the end of the thread function and once in the handler: on
  a fresh registry the counter wraps to \<open>2 ^ 32 - 1\<close>, and \<^verbatim>\<open>any_running\<close> turns true.
  (When the thread cannot be started the state is as before: lemma
  \<open>spawn_thread_start_fails\<close>.)
\<close>

theorem spawn_thread_record_fails:
  "spawn_thread (Record_fails 1) ThreadManager_init =
     (Inl bad_alloc, ThreadManager_init\<lparr>thread_counter := 4294967295\<rparr>)
   \<and> alive_threads ThreadManager_init = 0
   \<and> alive_threads (snd (spawn_thread (Record_fails 1) ThreadManager_init)) = 4294967295
   \<and> \<not> any_running ThreadManager_init
   \<and> any_running (snd (spawn_thread (Record_fails 1) ThreadManager_init))"
  by (simp add: spawn_thread_def spawn_locked_def spawn_rollback_def spawn_enter_def
      thread_exit_def ThreadManager_init_def alive_threads_def any_running_def
      unsigned_minus_1_eq_mask mask_eq_exp_minus_1 word_greater_zero_iff)

subsection \<open>Alive and total\<close>

text \<open>
  Claim C9, as amended. In every state that an execution reaches in which no
  \<^verbatim>\<open>spawn_thread\<close> has failed after starting its thread, the counter is at most the size
  of the table plus the number of \<^verbatim>\<open>spawn_thread\<close> calls that have made their \<^verbatim>\<open>fetch_add\<close>
  and not yet inserted their thread, a call whose thread has already ended not
  counted; with no call under way, \<^verbatim>\<open>alive_threads\<close> is at most \<^verbatim>\<open>total_threads\<close>. When
  \<^verbatim>\<open>join\<close> returns the table is empty and the counter is at most the number of waiting
  calls, 0 with none. A
  \<^verbatim>\<open>spawn_thread\<close> call that succeeds with a new identity and that no other event
  interrupts increases \<^verbatim>\<open>total_threads\<close> by exactly 1; it increases \<^verbatim>\<open>alive_threads\<close> by
  exactly 1 when its thread is still running at the insertion (the counter below
  \<open>2 ^ 32 - 1\<close>), and leaves it as it was when the thread has ended by then.
\<close>

theorem alive_le_total_quiescent:
  assumes "run evs (ThreadManager_init, 0, None) = Some (s, n, l)"
    and "\<forall>ev\<in>set evs. \<not> records_fail ev"
  shows "alive_threads s \<le> total_threads s + n + local_running l
       \<and> (n = 0 \<and> l = None \<longrightarrow> alive_threads s \<le> total_threads s)
       \<and> (l = None \<and> all_returned s \<longrightarrow>
            step Join (s, n, l) = Some (join s, n, None)
            \<and> total_threads (join s) = 0 \<and> alive_threads (join s) \<le> n
            \<and> (n = 0 \<longrightarrow> alive_threads (join s) = 0))
       \<and> (l = None \<and> tid |\<notin>| fmdom (threads s) \<and> alive_threads s < 2 ^ 32 - 1 \<longrightarrow>
            run [Spawn_enter, Spawn_start tid, Spawn_insert] (s, n, l) =
              Some (snd (spawn_thread (Thread_started tid) s), n, None)
            \<and> fst (spawn_thread (Thread_started tid) s) = Inr tid
            \<and> total_threads (snd (spawn_thread (Thread_started tid) s)) = total_threads s + 1
            \<and> alive_threads (snd (spawn_thread (Thread_started tid) s)) = alive_threads s + 1)
       \<and> (l = None \<and> tid |\<notin>| fmdom (threads s) \<longrightarrow>
            run [Spawn_enter, Spawn_start tid, Thread_exit tid, Spawn_insert] (s, n, l) =
              Some (spawn_insert tid True s, n, None)
            \<and> total_threads (spawn_insert tid True s) = total_threads s + 1
            \<and> alive_threads (spawn_insert tid True s) = alive_threads s)"
proof -
  have c: "counted (s, n, l)"
    using run_counted [OF counted_init assms] .
  have le: "alive_threads s \<le> total_threads s + n + local_running l"
    using c by (rule counted_alive_le)
  have j: "step Join (s, n, l) = Some (join s, n, None)
      \<and> total_threads (join s) = 0 \<and> alive_threads (join s) \<le> n"
    if "l = None \<and> all_returned s"
  proof -
    have st: "step Join (s, n, l) = Some (join s, n, None)" using that by simp
    moreover have "\<not> records_fail Join" by simp
    ultimately have "counted (join s, n, None)"
      by (rule step_counted [OF c])
    then have "alive_threads (join s) \<le> total_threads (join s) + n + local_running None"
      by (rule counted_alive_le)
    moreover have "total_threads (join s) = 0"
      by (simp add: total_threads_def join_def)
    ultimately show ?thesis using st by simp
  qed
  show ?thesis
    using le j spawn_thread_started [of tid s] spawn_thread_execution(1) [of tid s n]
      early_exit_execution [of tid s n] spawn_insert_counts [of tid s True]
    by auto
qed

lemma run_exited: "run exited_events (ThreadManager_init, 0, None) = Some (exited_state, 0, None)"
  by (simp add: exited_events_def exited_state_def ThreadManager_init_def spawn_enter_def
      spawn_insert_def thread_exit_def)

lemma run_early_exit:
  "run early_exit_events (ThreadManager_init, 0, None) = Some (exited_state, 0, None)"
  by (simp add: early_exit_events_def exited_state_def ThreadManager_init_def spawn_enter_def
      spawn_insert_def thread_exit_def)

lemma exited_facts:
  "all_returned exited_state \<and> 2 |\<notin>| fmdom (threads exited_state)
   \<and> alive_threads exited_state = 0 \<and> total_threads exited_state = 1"
  by (simp add: exited_state_def all_returned_def alive_threads_def total_threads_def
      fcard_finsert_if fcard_fempty)

theorem alive_le_total_quiescent_witness:
  "run exited_events (ThreadManager_init, 0, None) = Some (exited_state, 0, None)
   \<and> alive_threads exited_state \<le> total_threads exited_state
   \<and> total_threads (join exited_state) = 0 \<and> alive_threads (join exited_state) = 0
   \<and> fst (spawn_thread (Thread_started 2) exited_state) = Inr 2
   \<and> total_threads (snd (spawn_thread (Thread_started 2) exited_state)) = 2
   \<and> alive_threads (snd (spawn_thread (Thread_started 2) exited_state)) = 1
   \<and> total_threads (spawn_insert 2 True exited_state) = 2
   \<and> alive_threads (spawn_insert 2 True exited_state) = 0"
  using alive_le_total_quiescent [of exited_events exited_state 0 None 2] run_exited exited_facts
  by (simp add: exited_events_def)

text \<open>
  Claim C9 as stated fails in the first state an execution reaches: a \<^verbatim>\<open>spawn_thread\<close>
  call has made its \<^verbatim>\<open>fetch_add\<close>, the table is still empty. And a \<^verbatim>\<open>spawn_thread\<close> that
  succeeds does not always raise \<^verbatim>\<open>alive_threads\<close>: when the new thread ends before the
  insertion, the registry goes from 0 alive of 0 to 0 alive of 1.
\<close>

theorem alive_le_total_counterexample:
  "run [Spawn_enter] (ThreadManager_init, 0, None) = Some (spawn_enter ThreadManager_init, 1, None)
   \<and> alive_threads (spawn_enter ThreadManager_init) = 1
   \<and> total_threads (spawn_enter ThreadManager_init) = 0
   \<and> \<not> alive_threads (spawn_enter ThreadManager_init) \<le> total_threads (spawn_enter ThreadManager_init)
   \<and> run early_exit_events (ThreadManager_init, 0, None) = Some (exited_state, 0, None)
   \<and> alive_threads ThreadManager_init = 0 \<and> total_threads ThreadManager_init = 0
   \<and> alive_threads exited_state = 0 \<and> total_threads exited_state = 1"
  by (simp add: early_exit_events_def exited_state_def ThreadManager_init_def spawn_enter_def
      spawn_insert_def thread_exit_def alive_threads_def total_threads_def fcard_finsert_if
      fcard_fempty)

subsection \<open>Stopping one thread\<close>

lemma step_stop_state:
  assumes "step ev (s, n, l) = Some (s', n', l')"
    and "fmlookup (threads s') tid = Some thread'" and "stop_state thread'"
  shows "ev = Request_stop tid \<or> (\<exists>thread. fmlookup (threads s) tid = Some thread \<and> stop_state thread)"
proof (cases ev)
  case Spawn_enter
  with assms show ?thesis by (auto simp add: spawn_enter_def)
next
  case (Spawn_start x)
  with assms show ?thesis by (auto split: if_splits)
next
  case (Spawn_start_fails e)
  with assms show ?thesis by (auto simp add: spawn_rollback_def split: if_splits)
next
  case Spawn_insert
  with assms show ?thesis
    by (auto simp add: spawn_insert_def split: option.splits if_splits)
next
  case Spawn_record_fails
  with assms show ?thesis
    by (auto simp add: spawn_rollback_def split: option.splits if_splits)
next
  case (Thread_exit x)
  with assms show ?thesis
    by (auto simp add: thread_exit_def split: if_splits option.splits)
next
  case Join
  with assms show ?thesis by (auto simp add: join_def split: if_splits)
next
  case (Request_stop x)
  with assms show ?thesis
    by (auto simp add: request_stop_def split: if_splits option.splits)
next
  case Request_stop_all
  with assms show ?thesis by (auto simp add: request_stop_all_def)
next
  case (Reserve limit)
  with assms show ?thesis by (auto simp add: reserve_def)
qed

lemma run_stop_state:
  "run evs c = Some c' \<Longrightarrow> fmlookup (threads (fst c')) tid = Some thread' \<Longrightarrow> stop_state thread' \<Longrightarrow>
   Request_stop tid \<in> set evs \<or> (\<exists>thread. fmlookup (threads (fst c)) tid = Some thread \<and> stop_state thread)"
proof (induction evs arbitrary: c)
  case Nil
  then show ?case by auto
next
  case (Cons ev evs)
  then obtain c1 where c1: "step ev c = Some c1" and rest: "run evs c1 = Some c'"
    by (auto split: option.splits)
  from Cons.IH [OF rest Cons.prems(2) Cons.prems(3)]
  consider "Request_stop tid \<in> set evs"
    | thread1 where "fmlookup (threads (fst c1)) tid = Some thread1" "stop_state thread1"
    by blast
  then show ?case
  proof cases
    case 1
    then show ?thesis by simp
  next
    case 2
    have "step ev (fst c, fst (snd c), snd (snd c)) = Some (fst c1, fst (snd c1), snd (snd c1))"
      using c1 by simp
    from step_stop_state [OF this 2] show ?thesis by auto
  qed
qed

text \<open>
  An identity is known to a configuration when a thread of the table or the local
  thread holds it; only the construction of a thread makes an identity known.
\<close>

lemma step_known:
  assumes "step ev (s, n, l) = Some (s', n', l')"
    and "tid |\<in>| fmdom (threads s') \<or> (\<exists>r. l' = Some (tid, r))"
  shows "ev = Spawn_start tid \<or> tid |\<in>| fmdom (threads s) \<or> (\<exists>r. l = Some (tid, r))"
proof (cases ev)
  case Spawn_enter
  with assms show ?thesis by (auto simp add: spawn_enter_def)
next
  case (Spawn_start x)
  with assms show ?thesis by (auto split: if_splits)
next
  case (Spawn_start_fails e)
  with assms show ?thesis by (auto simp add: spawn_rollback_def split: if_splits)
next
  case Spawn_insert
  with assms show ?thesis
    by (auto simp add: spawn_insert_def split: option.splits if_splits)
next
  case Spawn_record_fails
  with assms show ?thesis
    by (auto simp add: spawn_rollback_def split: option.splits if_splits)
next
  case (Thread_exit x)
  with assms show ?thesis
    by (auto split: if_splits option.splits)
next
  case Join
  with assms show ?thesis by (auto simp add: join_def split: if_splits)
next
  case (Request_stop x)
  with assms show ?thesis
    by (auto split: if_splits)
next
  case Request_stop_all
  with assms show ?thesis by (auto simp add: request_stop_all_def)
next
  case (Reserve limit)
  with assms show ?thesis by (auto simp add: reserve_def)
qed

lemma run_known:
  "run evs c = Some c' \<Longrightarrow>
   tid |\<in>| fmdom (threads (fst c')) \<or> (\<exists>r. snd (snd c') = Some (tid, r)) \<Longrightarrow>
   Spawn_start tid \<in> set evs \<or> tid |\<in>| fmdom (threads (fst c))
     \<or> (\<exists>r. snd (snd c) = Some (tid, r))"
proof (induction evs arbitrary: c)
  case Nil
  then show ?case by auto
next
  case (Cons ev evs)
  then obtain c1 where c1: "step ev c = Some c1" and rest: "run evs c1 = Some c'"
    by (auto split: option.splits)
  from Cons.IH [OF rest Cons.prems(2)]
  consider "Spawn_start tid \<in> set evs"
    | "tid |\<in>| fmdom (threads (fst c1)) \<or> (\<exists>r. snd (snd c1) = Some (tid, r))"
    by blast
  then show ?case
  proof cases
    case 1
    then show ?thesis by simp
  next
    case 2
    have "step ev (fst c, fst (snd c), snd (snd c)) = Some (fst c1, fst (snd c1), snd (snd c1))"
      using c1 by simp
    from step_known [OF this 2] show ?thesis by auto
  qed
qed

lemma lookup_error:
  "tid |\<notin>| fmdom (threads s) \<Longrightarrow>
   request_stop tid s = (Inl (invalid_argument_thread tid), s)
   \<and> stop_requested tid s = (Inl (invalid_argument_thread tid), s)"
  by (simp add: request_stop_def stop_requested_def fmdom_notD)

lemma request_stop_then_requested:
  "tid |\<in>| fmdom (threads s) \<Longrightarrow>
   (\<exists>b. fst (request_stop tid s) = Inr b)
   \<and> stop_requested tid (snd (request_stop tid s)) = (Inr True, snd (request_stop tid s))"
  by (auto simp add: request_stop_def stop_requested_def fmlookup_dom_iff)

text \<open>
  Claim C8. For an identity that is not in the table, \<^verbatim>\<open>request_stop\<close> and
  \<^verbatim>\<open>stop_requested\<close> throw the invalid-argument error and leave the registry as it is;
  an identity that no \<^verbatim>\<open>spawn_thread\<close> of the execution has given to a thread is not in
  the table, and after \<^verbatim>\<open>join\<close> none is. For an identity in the table, \<^verbatim>\<open>stop_requested\<close>
  is false as long as the execution holds no \<^verbatim>\<open>request_stop\<close> for it, and it is true in
  the state that \<^verbatim>\<open>request_stop\<close> leaves.
\<close>

theorem stop_by_identity:
  "(tid |\<notin>| fmdom (threads s) \<longrightarrow>
      request_stop tid s = (Inl (invalid_argument_thread tid), s)
      \<and> stop_requested tid s = (Inl (invalid_argument_thread tid), s))
   \<and> (run evs (ThreadManager_init, 0, None) = Some (s, n, l)
        \<and> Spawn_start tid \<notin> set evs \<longrightarrow> tid |\<notin>| fmdom (threads s))
   \<and> tid |\<notin>| fmdom (threads (join s))
   \<and> (run evs (ThreadManager_init, 0, None) = Some (s, n, l) \<and> tid |\<in>| fmdom (threads s)
        \<and> Request_stop tid \<notin> set evs \<longrightarrow> stop_requested tid s = (Inr False, s))
   \<and> (tid |\<in>| fmdom (threads s) \<longrightarrow>
        (\<exists>b. fst (request_stop tid s) = Inr b)
        \<and> stop_requested tid (snd (request_stop tid s)) = (Inr True, snd (request_stop tid s)))"
proof (intro conjI impI)
  assume "tid |\<notin>| fmdom (threads s)"
  then show "request_stop tid s = (Inl (invalid_argument_thread tid), s)"
    and "stop_requested tid s = (Inl (invalid_argument_thread tid), s)"
    by (simp_all add: lookup_error)
next
  assume h: "run evs (ThreadManager_init, 0, None) = Some (s, n, l)
        \<and> Spawn_start tid \<notin> set evs"
  show "tid |\<notin>| fmdom (threads s)"
  proof
    assume "tid |\<in>| fmdom (threads s)"
    with h run_known [of evs "(ThreadManager_init, 0, None)" "(s, n, l)" tid]
    show False by (simp add: ThreadManager_init_def)
  qed
next
  show "tid |\<notin>| fmdom (threads (join s))" by (simp add: join_def)
next
  assume h: "run evs (ThreadManager_init, 0, None) = Some (s, n, l) \<and> tid |\<in>| fmdom (threads s)
        \<and> Request_stop tid \<notin> set evs"
  then obtain thread where look: "fmlookup (threads s) tid = Some thread"
    by (auto simp add: fmlookup_dom_iff)
  have "\<not> stop_state thread"
  proof
    assume "stop_state thread"
    with h look run_stop_state [of evs "(ThreadManager_init, 0, None)" "(s, n, l)" tid thread]
    show False by (simp add: ThreadManager_init_def)
  qed
  with look show "stop_requested tid s = (Inr False, s)"
    by (simp add: stop_requested_def)
next
  assume "tid |\<in>| fmdom (threads s)"
  then show "\<exists>b. fst (request_stop tid s) = Inr b"
    and "stop_requested tid (snd (request_stop tid s)) = (Inr True, snd (request_stop tid s))"
    using request_stop_then_requested by blast+
qed

theorem stop_by_identity_witness:
  "request_stop 7 mixed_state = (Inl (invalid_argument_thread 7), mixed_state)
   \<and> stop_requested 7 mixed_state = (Inl (invalid_argument_thread 7), mixed_state)
   \<and> run mixed_events (ThreadManager_init, 0, None) = Some (mixed_state, 0, None)
   \<and> stop_requested 2 mixed_state = (Inr False, mixed_state)
   \<and> fst (request_stop 2 mixed_state) = Inr True
   \<and> stop_requested 2 (snd (request_stop 2 mixed_state)) = (Inr True, snd (request_stop 2 mixed_state))"
proof -
  have reg: "2 |\<in>| fmdom (threads mixed_state) \<and> 7 |\<notin>| fmdom (threads mixed_state)"
    by (simp add: mixed_state_def)
  have evs: "Request_stop 2 \<notin> set mixed_events \<and> Spawn_start 7 \<notin> set mixed_events"
    by (simp add: mixed_events_def)
  have "fst (request_stop 2 mixed_state) = Inr True"
    by (simp add: request_stop_def mixed_state_def)
  then show ?thesis
    using stop_by_identity [of 7 mixed_state mixed_events 0 None]
      stop_by_identity [of 2 mixed_state mixed_events 0 None] run_mixed reg evs
    by simp
qed

end
